theory Spec2Isabelle
  imports
    Main
    "HOL-Library.Word"
    "HOL-Library.AList"
    "HOL-Library.Product_Lexorder"
    "HOL-Library.List_Lexorder"
begin

section \<open>Data model of the P-chain transaction builder\<close>

text \<open>
  The builder of \<^verbatim>\<open>wallet/chain/p/builder.go\<close> (package \<^verbatim>\<open>p\<close>) works on
  identifiers, output owners, UTXOs and transferable inputs and outputs.
  \<^verbatim>\<open>ids.ID\<close> (32 bytes) and \<^verbatim>\<open>ids.ShortID\<close> (20 bytes) are read as the
  natural numbers their bytes spell, \<^verbatim>\<open>uint64\<close> and \<^verbatim>\<open>uint32\<close> are words.
\<close>

type_synonym id = nat
type_synonym short_id = nat
type_synonym u64 = "64 word"
type_synonym u32 = "32 word"

text \<open>\<^verbatim>\<open>secp256k1fx.OutputOwners\<close>.\<close>

record OutputOwners =
  Locktime :: u64
  Threshold :: u32
  Addrs :: "short_id list"

text \<open>
  The dynamic type of an output payload (\<^verbatim>\<open>utxo.Out\<close>, \<^verbatim>\<open>TransferableOutput.Out\<close>):
  a \<^verbatim>\<open>*secp256k1fx.TransferOutput\<close>, a \<^verbatim>\<open>*platformvm.StakeableLockOut\<close> around
  another payload, or a value of any other type, of which only \<^verbatim>\<open>Amount()\<close> is
  kept.
\<close>

datatype out_intf =
    TransferOutput u64 OutputOwners
  | StakeableLockOut u64 out_intf
  | OtherOutput u64

text \<open>\<^verbatim>\<open>Amount()\<close> of a payload; a stakeable lock answers with its inner amount.\<close>

fun Amount :: "out_intf \<Rightarrow> u64" where
  "Amount (TransferOutput amt owners) = amt"
| "Amount (StakeableLockOut lt out) = Amount out"
| "Amount (OtherOutput amt) = amt"

text \<open>
  Input payloads as the builder writes them: \<^verbatim>\<open>secp256k1fx.TransferInput\<close>
  (amount and signature indices) and \<^verbatim>\<open>platformvm.StakeableLockIn\<close>.
\<close>

datatype in_intf =
    TransferInput u64 "u32 list"
  | StakeableLockIn u64 in_intf

fun in_Amount :: "in_intf \<Rightarrow> u64" where
  "in_Amount (TransferInput amt sigs) = amt"
| "in_Amount (StakeableLockIn lt inp) = in_Amount inp"

text \<open>\<^verbatim>\<open>djtx.UTXOID\<close> is the pair of the source transaction and the output index.\<close>

type_synonym UTXOID = "id \<times> u32"

datatype UTXO = UTXO (utxo_UTXOID: UTXOID) (utxo_Asset: id) (utxo_Out: out_intf)

datatype TransferableInput =
  TransferableInput (in_UTXOID: UTXOID) (in_Asset: id) (In: in_intf)

datatype TransferableOutput =
  TransferableOutput (out_Asset: id) (Out: out_intf)

section \<open>The output-owner matcher\<close>

text \<open>
  The loop of \<^verbatim>\<open>builder.match\<close>:
  \<^verbatim>\<open>for i := uint32(0); i < uint32(len(owners.Addrs)) && uint32(len(sigs)) < owners.Threshold; i++\<close>.
  The index and both lengths are 32-bit, as in the source.
\<close>

function match_loop :: "short_id set \<Rightarrow> OutputOwners \<Rightarrow> u32 \<Rightarrow> u32 list \<Rightarrow> u32 list" where
  "match_loop addrs owners i sigs =
     (if i < of_nat (length (Addrs owners)) \<and> of_nat (length sigs) < Threshold owners
      then (let addr = Addrs owners ! unat i
            in match_loop addrs owners (i + 1)
                 (if addr \<in> addrs then sigs @ [i] else sigs))
      else sigs)"
  by pat_completeness auto
termination
proof (relation "measure (\<lambda>(addrs, owners, i, sigs). 2 ^ 32 - unat i)")
  show "wf (measure (\<lambda>(addrs, owners, i, sigs). 2 ^ 32 - unat i))"
    by simp
next
  fix addrs :: "short_id set" and owners :: OutputOwners and i :: u32
    and sigs :: "u32 list" and x :: short_id
  assume a: "i < of_nat (length (Addrs owners)) \<and> of_nat (length sigs) < Threshold owners"
  then have "i \<noteq> - 1"
    by (metis word_order.extremum_strict)
  then have "1 + i \<noteq> 0"
    by (metis add_eq_0_iff)
  then have "unat (i + 1) = Suc (unat i)"
    by (simp add: unatSuc add.commute)
  moreover have "unat (i + 1) < 2 ^ 32"
    using unsigned_less [of "i + 1", where ?'a = nat] by simp
  ultimately show "((addrs, owners, i + 1, if x \<in> addrs then sigs @ [i] else sigs),
      (addrs, owners, i, sigs)) \<in> measure (\<lambda>(addrs, owners, i, sigs). 2 ^ 32 - unat i)"
    by simp
qed

declare match_loop.simps [simp del]

text \<open>\<^verbatim>\<open>builder.match\<close>: the signature indices and whether the owners are satisfied.\<close>

definition match :: "short_id set \<Rightarrow> OutputOwners \<Rightarrow> u64 \<Rightarrow> u32 list \<times> bool" where
  "match addrs owners minIssuanceTime =
     (if Locktime owners > minIssuanceTime then ([], False)
      else (let sigs = match_loop addrs owners 0 []
            in (sigs, (of_nat (length sigs) :: u32) = Threshold owners)))"

section \<open>Errors\<close>

text \<open>
  The errors of the package. The three formatted errors that wrap
  \<^verbatim>\<open>errInsufficientFunds\<close> keep what their message prints: the amount still
  needed and the asset, for staking or for burning, or that no UTXO could be imported.
  \<^verbatim>\<open>errBackend\<close> stands for an error returned by the backend, \<^verbatim>\<open>errOverflow\<close> for the
  error of \<^verbatim>\<open>math.Add64\<close>; the last two constructors are the \<^verbatim>\<open>fmt.Errorf\<close>
  wrappers of \<^verbatim>\<open>authorizeSubnet\<close> and \<^verbatim>\<open>NewImportTx\<close>.
\<close>

datatype funds_detail =
    NeedToStake u64 id
  | NeedToBurn u64 id
  | NoUTXOsToImport

datatype error =
    errNoChangeAddress
  | errWrongTxType
  | errUnknownOwnerType
  | errInsufficientAuthorization
  | errInsufficientFunds funds_detail
  | errUnknownOutputType
  | errOverflow
  | errBackend nat
  | errFetchSubnet id error
  | errGenerate error

section \<open>Helpers of other packages\<close>

text \<open>
  Modelled from the spec: \<^verbatim>\<open>math.Add64\<close> and \<^verbatim>\<open>math.Min64\<close> of \<^verbatim>\<open>utils/math\<close> are not
  in src/. The spec asks that an overflow is a detectable failure, so \<open>Add64\<close>
  returns an error when the sum does not fit in 64 bits, that is when \<open>a\<close> exceeds
  what the largest value leaves above \<open>b\<close>, and the sum otherwise; \<open>Min64\<close> is the
  smaller of its arguments.
\<close>

definition Add64 :: "u64 \<Rightarrow> u64 \<Rightarrow> error + u64" where
  "Add64 a b = (if a > - 1 - b then Inl errOverflow else Inr (a + b))"

definition Min64 :: "u64 \<Rightarrow> u64 \<Rightarrow> u64" where
  "Min64 a b = (if a < b then a else b)"

text \<open>
  A \<^verbatim>\<open>map[ids.ID]uint64\<close> is an association list. Reading a missing key gives the
  zero value, \<^verbatim>\<open>m[k] = v\<close> stores, \<^verbatim>\<open>m[k] -= v\<close> reads, subtracts (wrapping, as
  \<^verbatim>\<open>uint64\<close> does) and stores, which adds the key when it was missing.
\<close>

type_synonym amounts = "(id \<times> u64) list"

definition amount_of :: "amounts \<Rightarrow> id \<Rightarrow> u64" where
  "amount_of m k = (case map_of m k of None \<Rightarrow> 0 | Some v \<Rightarrow> v)"

definition set_amount :: "amounts \<Rightarrow> id \<Rightarrow> u64 \<Rightarrow> amounts" where
  "set_amount m k v = AList.update k v m"

definition sub_amount :: "amounts \<Rightarrow> id \<Rightarrow> u64 \<Rightarrow> amounts" where
  "sub_amount m k v = AList.update k (amount_of m k - v) m"

text \<open>
  \<^verbatim>\<open>for k, v := range m\<close> visits every key of the map once, in an order the
  language leaves unspecified and that may change from one loop to the next. The order
  is a parameter: a list of numbers that picks, one after the other, the position of
  the next key among those left. Every list of numbers gives a permutation of the keys.
\<close>

fun shuffle :: "nat list \<Rightarrow> 'a list \<Rightarrow> 'a list" where
  "shuffle [] xs = xs"
| "shuffle (n # ns) xs =
     (if xs = [] then []
      else (let i = n mod length xs
            in xs ! i # shuffle ns (take i xs @ drop (Suc i) xs)))"

definition range_map :: "nat list \<Rightarrow> amounts \<Rightarrow> (id \<times> u64) list" where
  "range_map order m = map (\<lambda>k. (k, amount_of m k)) (shuffle order (remdups (map fst m)))"

text \<open>
  The first entry with a nonzero amount that a \<^verbatim>\<open>range\<close> loop meets, as the two loops
  at the end of \<^verbatim>\<open>spend\<close> look for it.
\<close>

definition first_nonzero :: "nat list \<Rightarrow> amounts \<Rightarrow> (id \<times> u64) option" where
  "first_nonzero order m = find (\<lambda>(assetID, amount). amount \<noteq> 0) (range_map order m)"

text \<open>
  Modelled from the spec: the sort functions of \<^verbatim>\<open>ids\<close> and \<^verbatim>\<open>djtx\<close> are not in src/.
  Inputs are sorted by a total order over the UTXO id (transaction id, then output
  index); outputs are sorted by a total order over their serialized representation
  (the asset id, then the bytes the codec writes for the payload); identifiers are
  sorted by their bytes.
\<close>

definition SortTransferableInputs :: "TransferableInput list \<Rightarrow> TransferableInput list" where
  "SortTransferableInputs ins = sort_key in_UTXOID ins"

definition SortTransferableOutputs ::
  "TransferableOutput list \<Rightarrow> (out_intf \<Rightarrow> nat list) \<Rightarrow> TransferableOutput list" where
  "SortTransferableOutputs outs codec = sort_key (\<lambda>out. (out_Asset out, codec (Out out))) outs"

definition SortShortIDs :: "short_id list \<Rightarrow> short_id list" where
  "SortShortIDs xs = sort xs"

definition SortIDs :: "id list \<Rightarrow> id list" where
  "SortIDs xs = sort xs"

text \<open>\<^verbatim>\<open>constants.PlatformChainID\<close> is the empty identifier.\<close>

definition PlatformChainID :: id where
  "PlatformChainID = 0"

section \<open>Transactions, options, backend and builder\<close>

text \<open>\<^verbatim>\<open>platformvm.Validator\<close> and \<^verbatim>\<open>platformvm.SubnetValidator\<close>, which embeds it.\<close>

record Validator =
  NodeID :: short_id
  Start :: u64
  End :: u64
  Wght :: u64

record SubnetValidator = Validator +
  Subnet :: id

text \<open>\<^verbatim>\<open>djtx.BaseTx\<close>.\<close>

record BaseTx =
  NetworkID :: u32
  BlockchainID :: id
  Ins :: "TransferableInput list"
  Outs :: "TransferableOutput list"
  Memo :: "nat list"

text \<open>The owner of a subnet is an interface value: output owners, or something else.\<close>

datatype owner_intf = Owner OutputOwners | OtherOwner

text \<open>
  The unsigned transactions the builder returns, with the fields of the Go structs in
  their order, and \<open>OtherTx\<close> for any other transaction the backend may hold.
  The subnet authorization is the \<^verbatim>\<open>SigIndices\<close> of a \<^verbatim>\<open>secp256k1fx.Input\<close>.
\<close>

datatype UnsignedTx =
    UnsignedAddValidatorTx BaseTx Validator "TransferableOutput list" OutputOwners u32
  | UnsignedAddSubnetValidatorTx BaseTx SubnetValidator "u32 list"
  | UnsignedAddDelegatorTx BaseTx Validator "TransferableOutput list" OutputOwners
  | UnsignedCreateChainTx BaseTx id string id "id list" "nat list" "u32 list"
  | UnsignedCreateSubnetTx BaseTx owner_intf
  | UnsignedImportTx BaseTx id "TransferableInput list"
  | UnsignedExportTx BaseTx id "TransferableOutput list"
  | OtherTx

text \<open>
  Modelled from the spec: \<^verbatim>\<open>common.Options\<close> is not in src/. The build options hold the
  issuance-time floor, an optional change-owner override and the memo; \<open>ChangeOwner\<close>
  answers with the override when there is one and with the default it is given
  otherwise.
\<close>

record Options =
  minIssuanceTime :: u64
  changeOwner :: "OutputOwners option"
  memo :: "nat list"

definition MinIssuanceTime :: "Options \<Rightarrow> u64" where
  "MinIssuanceTime ops = minIssuanceTime ops"

definition ChangeOwner :: "Options \<Rightarrow> OutputOwners \<Rightarrow> OutputOwners" where
  "ChangeOwner ops defaultOwner =
     (case changeOwner ops of None \<Rightarrow> defaultOwner | Some owner \<Rightarrow> owner)"

text \<open>
  \<^verbatim>\<open>BuilderBackend\<close>: the chain's context and the two lookups, each of which may fail.
\<close>

record Backend =
  ctx_NetworkID :: u32
  DJTXAssetID :: id
  BaseTxFee :: u64
  CreateSubnetTxFee :: u64
  UTXOs :: "id \<Rightarrow> error + UTXO list"
  GetTx :: "id \<Rightarrow> error + UnsignedTx"

text \<open>The \<^verbatim>\<open>builder\<close> struct.\<close>

record builder =
  addrs :: "short_id set"
  backend :: Backend

text \<open>
  What the builder takes from its surroundings: the codec that serializes an output
  payload (\<^verbatim>\<open>platformvm.Codec\<close>), the pick of \<^verbatim>\<open>ids.ShortSet.Peek\<close>, and the orders in
  which the two \<^verbatim>\<open>range\<close> loops of \<^verbatim>\<open>spend\<close> visit their maps.

  Modelled from the spec: \<^verbatim>\<open>ids.ShortSet.Peek\<close> is not in src/. The spec describes it as
  a fixed pick from the set, not a random one: it is a function of the set.
\<close>

record runtime =
  Codec :: "out_intf \<Rightarrow> nat list"
  Peek :: "short_id set \<Rightarrow> short_id option"
  stakeRange :: "nat list"
  burnRange :: "nat list"

text \<open>A loop over a slice whose body may return an error.\<close>

fun for_each :: "('a \<Rightarrow> 's \<Rightarrow> error + 's) \<Rightarrow> 'a list \<Rightarrow> 's \<Rightarrow> error + 's" where
  "for_each body [] s = Inr s"
| "for_each body (x # xs) s =
     (case body x s of Inl e \<Rightarrow> Inl e | Inr s' \<Rightarrow> for_each body xs s')"

section \<open>The spend planner\<close>

text \<open>
  The variables \<^verbatim>\<open>spend\<close> changes while it scans: the three result slices and the two
  maps of amounts still to burn and to stake.
\<close>

record spend_state =
  inputs :: "TransferableInput list"
  changeOutputs :: "TransferableOutput list"
  stakeOutputs :: "TransferableOutput list"
  amountsToBurn :: amounts
  amountsToStake :: amounts

text \<open>
  The first loop of \<^verbatim>\<open>spend\<close> (``iterate over the locked UTXOs''), from the point
  where a UTXO has been matched: the input, the stake output, the stake map and the
  change output for what the stake did not need.
\<close>

definition consume_locked ::
  "UTXO \<Rightarrow> u64 \<Rightarrow> u64 \<Rightarrow> OutputOwners \<Rightarrow> u32 list \<Rightarrow> spend_state \<Rightarrow> spend_state" where
  "consume_locked utxo lockTime amt owners inputSigIndices s =
     (let assetID = utxo_Asset utxo;
          remainingAmountToStake = amount_of (amountsToStake s) assetID;
          amountToStake = Min64 remainingAmountToStake amt;
          remainingAmount = amt - amountToStake
      in s\<lparr>inputs := inputs s @
             [TransferableInput (utxo_UTXOID utxo) assetID
                (StakeableLockIn lockTime (TransferInput amt inputSigIndices))],
           stakeOutputs := stakeOutputs s @
             [TransferableOutput assetID
                (StakeableLockOut lockTime (TransferOutput amountToStake owners))],
           amountsToStake := sub_amount (amountsToStake s) assetID amountToStake,
           changeOutputs :=
             (if remainingAmount > 0
              then changeOutputs s @
                [TransferableOutput assetID
                   (StakeableLockOut lockTime (TransferOutput remainingAmount owners))]
              else changeOutputs s)\<rparr>)"

text \<open>
  The body of the first loop. The state is returned unchanged where the source says
  \<^verbatim>\<open>continue\<close>.
\<close>

definition spend_locked :: "short_id set \<Rightarrow> u64 \<Rightarrow> UTXO \<Rightarrow> spend_state \<Rightarrow> error + spend_state" where
  "spend_locked as minTime utxo s =
     (let assetID = utxo_Asset utxo;
          remainingAmountToStake = amount_of (amountsToStake s) assetID
      in if remainingAmountToStake = 0 then Inr s
         else (case utxo_Out utxo of
            StakeableLockOut lockTime tout \<Rightarrow>
              if minTime \<ge> lockTime then Inr s
              else (case tout of
                 TransferOutput amt owners \<Rightarrow>
                   (case match as owners minTime of
                      (inputSigIndices, ok) \<Rightarrow>
                        if \<not> ok then Inr s
                        else Inr (consume_locked utxo lockTime amt owners inputSigIndices s))
               | _ \<Rightarrow> Inl errUnknownOutputType)
          | _ \<Rightarrow> Inr s))"

text \<open>
  The second loop (``iterate over the unlocked UTXOs''), from the point where a UTXO
  has been matched: the input, then the burn, the stake and the change, in this order.
\<close>

definition consume_unlocked ::
  "OutputOwners \<Rightarrow> UTXO \<Rightarrow> u64 \<Rightarrow> u32 list \<Rightarrow> spend_state \<Rightarrow> spend_state" where
  "consume_unlocked changeOwn utxo amt inputSigIndices s =
     (let assetID = utxo_Asset utxo;
          remainingAmountToStake = amount_of (amountsToStake s) assetID;
          remainingAmountToBurn = amount_of (amountsToBurn s) assetID;
          amountToBurn = Min64 remainingAmountToBurn amt;
          amountAvalibleToStake = amt - amountToBurn;
          amountToStake = Min64 remainingAmountToStake amountAvalibleToStake;
          remainingAmount = amountAvalibleToStake - amountToStake
      in s\<lparr>inputs := inputs s @
             [TransferableInput (utxo_UTXOID utxo) assetID (TransferInput amt inputSigIndices)],
           amountsToBurn := sub_amount (amountsToBurn s) assetID amountToBurn,
           amountsToStake := sub_amount (amountsToStake s) assetID amountToStake,
           stakeOutputs :=
             (if amountToStake > 0
              then stakeOutputs s @
                [TransferableOutput assetID (TransferOutput amountToStake changeOwn)]
              else stakeOutputs s),
           changeOutputs :=
             (if remainingAmount > 0
              then changeOutputs s @
                [TransferableOutput assetID (TransferOutput remainingAmount changeOwn)]
              else changeOutputs s)\<rparr>)"

text \<open>
  The payload the second loop goes on with: a stakeable lock that is still active makes
  it skip the UTXO (\<open>None\<close>), a matured one is unwrapped, anything else is taken as it
  is.
\<close>

definition unlocked_payload :: "u64 \<Rightarrow> out_intf \<Rightarrow> out_intf option" where
  "unlocked_payload minTime outIntf =
     (case outIntf of
        StakeableLockOut lockTime tout \<Rightarrow>
          if lockTime > minTime then None else Some tout
      | _ \<Rightarrow> Some outIntf)"

text \<open>The body of the second loop.\<close>

definition spend_unlocked ::
  "short_id set \<Rightarrow> u64 \<Rightarrow> OutputOwners \<Rightarrow> UTXO \<Rightarrow> spend_state \<Rightarrow> error + spend_state" where
  "spend_unlocked as minTime changeOwn utxo s =
     (let assetID = utxo_Asset utxo;
          remainingAmountToStake = amount_of (amountsToStake s) assetID;
          remainingAmountToBurn = amount_of (amountsToBurn s) assetID
      in if remainingAmountToStake = 0 \<and> remainingAmountToBurn = 0 then Inr s
         else (case unlocked_payload minTime (utxo_Out utxo) of
            None \<Rightarrow> Inr s
          | Some outIntf \<Rightarrow>
              (case outIntf of
                 TransferOutput amt owners \<Rightarrow>
                   (case match as owners minTime of
                      (inputSigIndices, ok) \<Rightarrow>
                        if \<not> ok then Inr s
                        else Inr (consume_unlocked changeOwn utxo amt inputSigIndices s))
               | _ \<Rightarrow> Inl errUnknownOutputType)))"

text \<open>
  The two loops, one after the other over the same slice, from the state a call of
  \<^verbatim>\<open>spend\<close> starts in: no inputs, no outputs, and the two maps it was given.
\<close>

definition spend_scan ::
  "short_id set \<Rightarrow> u64 \<Rightarrow> OutputOwners \<Rightarrow> UTXO list \<Rightarrow> spend_state \<Rightarrow> error + spend_state" where
  "spend_scan as minTime changeOwn utxos s =
     (case for_each (spend_locked as minTime) utxos s of
        Inl e \<Rightarrow> Inl e
      | Inr s1 \<Rightarrow> for_each (spend_unlocked as minTime changeOwn) utxos s1)"

definition spend_init :: "amounts \<Rightarrow> amounts \<Rightarrow> spend_state" where
  "spend_init toBurn toStake =
     \<lparr>inputs = [], changeOutputs = [], stakeOutputs = [],
      amountsToBurn = toBurn, amountsToStake = toStake\<rparr>"

text \<open>
  The two loops at the end of \<^verbatim>\<open>spend\<close>, over the stake map and then over the burn
  map, and the three sorts.
\<close>

definition spend_finish ::
  "runtime \<Rightarrow> spend_state \<Rightarrow>
   error + (TransferableInput list \<times> TransferableOutput list \<times> TransferableOutput list)" where
  "spend_finish rt s =
     (case first_nonzero (stakeRange rt) (amountsToStake s) of
        Some (assetID, amount) \<Rightarrow> Inl (errInsufficientFunds (NeedToStake amount assetID))
      | None \<Rightarrow>
          (case first_nonzero (burnRange rt) (amountsToBurn s) of
             Some (assetID, amount) \<Rightarrow> Inl (errInsufficientFunds (NeedToBurn amount assetID))
           | None \<Rightarrow>
               Inr (SortTransferableInputs (inputs s),
                    SortTransferableOutputs (changeOutputs s) (Codec rt),
                    SortTransferableOutputs (stakeOutputs s) (Codec rt))))"

text \<open>The change owner \<^verbatim>\<open>spend\<close> and \<^verbatim>\<open>NewImportTx\<close> resolve from the picked address.\<close>

definition resolve_changeOwner :: "Options \<Rightarrow> short_id \<Rightarrow> OutputOwners" where
  "resolve_changeOwner ops addr =
     ChangeOwner ops \<lparr>Locktime = 0, Threshold = 1, Addrs = [addr]\<rparr>"

text \<open>\<^verbatim>\<open>builder.spend\<close>.\<close>

definition spend ::
  "runtime \<Rightarrow> builder \<Rightarrow> amounts \<Rightarrow> amounts \<Rightarrow> Options \<Rightarrow>
   error + (TransferableInput list \<times> TransferableOutput list \<times> TransferableOutput list)" where
  "spend rt b toBurn toStake ops =
     (case UTXOs (backend b) PlatformChainID of
        Inl e \<Rightarrow> Inl e
      | Inr utxos \<Rightarrow>
          (let minTime = MinIssuanceTime ops
           in case Peek rt (addrs b) of
                None \<Rightarrow> Inl errNoChangeAddress
              | Some addr \<Rightarrow>
                  (case spend_scan (addrs b) minTime (resolve_changeOwner ops addr) utxos
                          (spend_init toBurn toStake) of
                     Inl e \<Rightarrow> Inl e
                   | Inr s \<Rightarrow> spend_finish rt s)))"

section \<open>Subnet authorization\<close>

text \<open>\<^verbatim>\<open>builder.authorizeSubnet\<close>; the result is the \<^verbatim>\<open>SigIndices\<close> of the input.\<close>

definition authorizeSubnet :: "builder \<Rightarrow> id \<Rightarrow> Options \<Rightarrow> error + u32 list" where
  "authorizeSubnet b subnetID ops =
     (case GetTx (backend b) subnetID of
        Inl e \<Rightarrow> Inl (errFetchSubnet subnetID e)
      | Inr subnetTx \<Rightarrow>
          (case subnetTx of
             UnsignedCreateSubnetTx base subnetOwner \<Rightarrow>
               (case subnetOwner of
                  Owner owner \<Rightarrow>
                    (case match (addrs b) owner (MinIssuanceTime ops) of
                       (inputSigIndices, ok) \<Rightarrow>
                         if \<not> ok then Inl errInsufficientAuthorization
                         else Inr inputSigIndices)
                | _ \<Rightarrow> Inl errUnknownOwnerType)
           | _ \<Rightarrow> Inl errWrongTxType))"

section \<open>The transaction assemblers\<close>

text \<open>The \<^verbatim>\<open>BaseTx\<close> every assembler writes: network, platform chain, inputs, outputs, memo.\<close>

definition base_tx ::
  "builder \<Rightarrow> Options \<Rightarrow> TransferableInput list \<Rightarrow> TransferableOutput list \<Rightarrow> BaseTx" where
  "base_tx b ops ins outs =
     \<lparr>NetworkID = ctx_NetworkID (backend b), BlockchainID = PlatformChainID,
      Ins = ins, Outs = outs, Memo = memo ops\<rparr>"

definition NewAddValidatorTx ::
  "runtime \<Rightarrow> builder \<Rightarrow> Validator \<Rightarrow> OutputOwners \<Rightarrow> u32 \<Rightarrow> Options \<Rightarrow> error + UnsignedTx" where
  "NewAddValidatorTx rt b validator rewardsOwner shares ops =
     (let toBurn = [];
          toStake = [(DJTXAssetID (backend b), Wght validator)]
      in case spend rt b toBurn toStake ops of
           Inl e \<Rightarrow> Inl e
         | Inr (ins, baseOutputs, stakeOuts) \<Rightarrow>
             Inr (UnsignedAddValidatorTx (base_tx b ops ins baseOutputs) validator stakeOuts
                    (rewardsOwner\<lparr>Addrs := SortShortIDs (Addrs rewardsOwner)\<rparr>) shares))"

definition NewAddSubnetValidatorTx ::
  "runtime \<Rightarrow> builder \<Rightarrow> SubnetValidator \<Rightarrow> Options \<Rightarrow> error + UnsignedTx" where
  "NewAddSubnetValidatorTx rt b validator ops =
     (let toBurn = [(DJTXAssetID (backend b), CreateSubnetTxFee (backend b))];
          toStake = []
      in case spend rt b toBurn toStake ops of
           Inl e \<Rightarrow> Inl e
         | Inr (ins, outs, _) \<Rightarrow>
             (case authorizeSubnet b (Subnet validator) ops of
                Inl e \<Rightarrow> Inl e
              | Inr subnetAuth \<Rightarrow>
                  Inr (UnsignedAddSubnetValidatorTx (base_tx b ops ins outs) validator subnetAuth)))"

definition NewAddDelegatorTx ::
  "runtime \<Rightarrow> builder \<Rightarrow> Validator \<Rightarrow> OutputOwners \<Rightarrow> Options \<Rightarrow> error + UnsignedTx" where
  "NewAddDelegatorTx rt b validator rewardsOwner ops =
     (let toBurn = [];
          toStake = [(DJTXAssetID (backend b), Wght validator)]
      in case spend rt b toBurn toStake ops of
           Inl e \<Rightarrow> Inl e
         | Inr (ins, baseOutputs, stakeOuts) \<Rightarrow>
             Inr (UnsignedAddDelegatorTx (base_tx b ops ins baseOutputs) validator stakeOuts
                    (rewardsOwner\<lparr>Addrs := SortShortIDs (Addrs rewardsOwner)\<rparr>)))"

definition NewCreateChainTx ::
  "runtime \<Rightarrow> builder \<Rightarrow> id \<Rightarrow> nat list \<Rightarrow> id \<Rightarrow> id list \<Rightarrow> string \<Rightarrow> Options \<Rightarrow>
   error + UnsignedTx" where
  "NewCreateChainTx rt b subnetID genesis vmID fxIDs chainName ops =
     (let toBurn = [(DJTXAssetID (backend b), CreateSubnetTxFee (backend b))];
          toStake = []
      in case spend rt b toBurn toStake ops of
           Inl e \<Rightarrow> Inl e
         | Inr (ins, outs, _) \<Rightarrow>
             (case authorizeSubnet b subnetID ops of
                Inl e \<Rightarrow> Inl e
              | Inr subnetAuth \<Rightarrow>
                  Inr (UnsignedCreateChainTx (base_tx b ops ins outs) subnetID chainName vmID
                         (SortIDs fxIDs) genesis subnetAuth)))"

definition NewCreateSubnetTx ::
  "runtime \<Rightarrow> builder \<Rightarrow> OutputOwners \<Rightarrow> Options \<Rightarrow> error + UnsignedTx" where
  "NewCreateSubnetTx rt b owner ops =
     (let toBurn = [(DJTXAssetID (backend b), CreateSubnetTxFee (backend b))];
          toStake = []
      in case spend rt b toBurn toStake ops of
           Inl e \<Rightarrow> Inl e
         | Inr (ins, outs, _) \<Rightarrow>
             Inr (UnsignedCreateSubnetTx (base_tx b ops ins outs)
                    (Owner (owner\<lparr>Addrs := SortShortIDs (Addrs owner)\<rparr>))))"

text \<open>
  The body of the loop of \<^verbatim>\<open>NewImportTx\<close> over the UTXOs of the source chain; the
  state is the pair of \<^verbatim>\<open>importedInputs\<close> and \<^verbatim>\<open>importedAmount\<close>.
\<close>

definition import_utxo ::
  "short_id set \<Rightarrow> id \<Rightarrow> u64 \<Rightarrow> UTXO \<Rightarrow> TransferableInput list \<times> u64 \<Rightarrow>
   error + (TransferableInput list \<times> u64)" where
  "import_utxo as djtxAssetID minTime utxo st =
     (case st of (importedInputs, importedAmount) \<Rightarrow>
        if utxo_Asset utxo \<noteq> djtxAssetID then Inr st
        else (case utxo_Out utxo of
           TransferOutput amt owners \<Rightarrow>
             (case match as owners minTime of
                (inputSigIndices, ok) \<Rightarrow>
                  if \<not> ok then Inr st
                  else (case Add64 importedAmount amt of
                     Inl e \<Rightarrow> Inl e
                   | Inr newImportedAmount \<Rightarrow>
                       Inr (importedInputs @
                              [TransferableInput (utxo_UTXOID utxo) (utxo_Asset utxo)
                                 (TransferInput amt inputSigIndices)],
                            newImportedAmount)))
         | _ \<Rightarrow> Inr st))"

text \<open>\<^verbatim>\<open>builder.NewImportTx\<close>. The owners \<^verbatim>\<open>to\<close> are a parameter the source never reads.\<close>

definition NewImportTx ::
  "runtime \<Rightarrow> builder \<Rightarrow> id \<Rightarrow> OutputOwners \<Rightarrow> Options \<Rightarrow> error + UnsignedTx" where
  "NewImportTx rt b sourceChainID to ops =
     (case UTXOs (backend b) sourceChainID of
        Inl e \<Rightarrow> Inl e
      | Inr utxos \<Rightarrow>
          (let minTime = MinIssuanceTime ops;
               djtxAssetID = DJTXAssetID (backend b);
               txFee = BaseTxFee (backend b)
           in case for_each (import_utxo (addrs b) djtxAssetID minTime) utxos ([], 0) of
                Inl e \<Rightarrow> Inl e
              | Inr (unsortedInputs, importedAmount) \<Rightarrow>
                  (let importedInputs = SortTransferableInputs unsortedInputs
                   in if length importedInputs = 0
                      then Inl (errInsufficientFunds NoUTXOsToImport)
                      else if importedAmount < txFee
                      then (case spend rt b [(djtxAssetID, txFee - importedAmount)] [] ops of
                              Inl e \<Rightarrow> Inl (errGenerate e)
                            | Inr (ins, outs, _) \<Rightarrow>
                                Inr (UnsignedImportTx (base_tx b ops ins outs)
                                       sourceChainID importedInputs))
                      else if importedAmount > txFee
                      then (case Peek rt (addrs b) of
                              None \<Rightarrow> Inl errNoChangeAddress
                            | Some addr \<Rightarrow>
                                Inr (UnsignedImportTx
                                       (base_tx b ops []
                                          [TransferableOutput djtxAssetID
                                             (TransferOutput (importedAmount - txFee)
                                                (resolve_changeOwner ops addr))])
                                       sourceChainID importedInputs))
                      else Inr (UnsignedImportTx (base_tx b ops [] [])
                                  sourceChainID importedInputs))))"

text \<open>
  The body of the loop of \<^verbatim>\<open>NewExportTx\<close> that adds every exported amount to what
  must be burned of its asset.
\<close>

definition export_output :: "TransferableOutput \<Rightarrow> amounts \<Rightarrow> error + amounts" where
  "export_output out toBurn =
     (let assetID = out_Asset out
      in case Add64 (amount_of toBurn assetID) (Amount (Out out)) of
           Inl e \<Rightarrow> Inl e
         | Inr amountToBurn \<Rightarrow> Inr (set_amount toBurn assetID amountToBurn))"

definition NewExportTx ::
  "runtime \<Rightarrow> builder \<Rightarrow> id \<Rightarrow> TransferableOutput list \<Rightarrow> Options \<Rightarrow> error + UnsignedTx" where
  "NewExportTx rt b chainID outputs ops =
     (case for_each export_output outputs [(DJTXAssetID (backend b), BaseTxFee (backend b))] of
        Inl e \<Rightarrow> Inl e
      | Inr toBurn \<Rightarrow>
          (case spend rt b toBurn [] ops of
             Inl e \<Rightarrow> Inl e
           | Inr (ins, changeOuts, _) \<Rightarrow>
               Inr (UnsignedExportTx (base_tx b ops ins changeOuts) chainID
                      (SortTransferableOutputs outputs (Codec rt)))))"

section \<open>What a transaction consumes and produces\<close>

text \<open>
  All inputs of a transaction (the imported ones included) and all its outputs (the
  stake outputs and the exported ones included).
\<close>

fun tx_inputs :: "UnsignedTx \<Rightarrow> TransferableInput list" where
  "tx_inputs (UnsignedAddValidatorTx base v stake ro sh) = Ins base"
| "tx_inputs (UnsignedAddSubnetValidatorTx base v auth) = Ins base"
| "tx_inputs (UnsignedAddDelegatorTx base v stake ro) = Ins base"
| "tx_inputs (UnsignedCreateChainTx base sid name vm fxs gen auth) = Ins base"
| "tx_inputs (UnsignedCreateSubnetTx base own) = Ins base"
| "tx_inputs (UnsignedImportTx base src imported) = Ins base @ imported"
| "tx_inputs (UnsignedExportTx base dst exported) = Ins base"
| "tx_inputs OtherTx = []"

fun tx_outputs :: "UnsignedTx \<Rightarrow> TransferableOutput list" where
  "tx_outputs (UnsignedAddValidatorTx base v stake ro sh) = Outs base @ stake"
| "tx_outputs (UnsignedAddSubnetValidatorTx base v auth) = Outs base"
| "tx_outputs (UnsignedAddDelegatorTx base v stake ro) = Outs base @ stake"
| "tx_outputs (UnsignedCreateChainTx base sid name vm fxs gen auth) = Outs base"
| "tx_outputs (UnsignedCreateSubnetTx base own) = Outs base"
| "tx_outputs (UnsignedImportTx base src imported) = Outs base"
| "tx_outputs (UnsignedExportTx base dst exported) = Outs base @ exported"
| "tx_outputs OtherTx = []"

text \<open>
  The amount of one asset in a list of inputs or of outputs, summed in the natural
  numbers, so that the sum itself cannot wrap.
\<close>

definition in_sum :: "id \<Rightarrow> TransferableInput list \<Rightarrow> nat" where
  "in_sum a ins = sum_list (map (\<lambda>i. unat (in_Amount (In i))) (filter (\<lambda>i. in_Asset i = a) ins))"

definition out_sum :: "id \<Rightarrow> TransferableOutput list \<Rightarrow> nat" where
  "out_sum a outs = sum_list (map (\<lambda>out. unat (Amount (Out out))) (filter (\<lambda>out. out_Asset out = a) outs))"

text \<open>
  The balance of one asset in a state of the spend planner, given what was asked to
  be burned of it: what the inputs bring equals what is in the outputs plus what has
  been burned so far, which is the part of the request no longer in the burn map.
\<close>

definition balanced :: "id \<Rightarrow> u64 \<Rightarrow> spend_state \<Rightarrow> bool" where
  "balanced a requested s \<longleftrightarrow>
     in_sum a (inputs s) + unat (amount_of (amountsToBurn s) a) =
       out_sum a (changeOutputs s) + out_sum a (stakeOutputs s) + unat requested"

text \<open>
  The UTXOs of the source chain that \<^verbatim>\<open>NewImportTx\<close> imports, in the spec's words: of the
  native asset, of a plain-transfer shape, and with owners the matcher is satisfied by;
  the input written for such a UTXO; and the sum of their amounts in the natural
  numbers.
\<close>

definition eligible :: "short_id set \<Rightarrow> id \<Rightarrow> u64 \<Rightarrow> UTXO \<Rightarrow> bool" where
  "eligible as djtxAssetID minTime utxo \<longleftrightarrow>
     utxo_Asset utxo = djtxAssetID \<and>
     (case utxo_Out utxo of
        TransferOutput amt owners \<Rightarrow> snd (match as owners minTime)
      | _ \<Rightarrow> False)"

definition imported_input :: "short_id set \<Rightarrow> u64 \<Rightarrow> UTXO \<Rightarrow> TransferableInput" where
  "imported_input as minTime utxo =
     TransferableInput (utxo_UTXOID utxo) (utxo_Asset utxo)
       (case utxo_Out utxo of
          TransferOutput amt owners \<Rightarrow> TransferInput amt (fst (match as owners minTime))
        | _ \<Rightarrow> TransferInput 0 [])"

definition eligible_sum :: "short_id set \<Rightarrow> id \<Rightarrow> u64 \<Rightarrow> UTXO list \<Rightarrow> nat" where
  "eligible_sum as djtxAssetID minTime utxos =
     sum_list (map (\<lambda>u. unat (Amount (utxo_Out u))) (filter (eligible as djtxAssetID minTime) utxos))"

section \<open>Comparing two invocations\<close>

text \<open>
  An error without what only the order of a \<^verbatim>\<open>range\<close> loop decides: the asset an
  insufficient funds error of \<^verbatim>\<open>spend\<close> names, and the amount it prints for it. Two
  results are the same outcome when both are the same value, or both are errors that
  differ at most in that.
\<close>

fun erase_detail :: "error \<Rightarrow> error" where
  "erase_detail (errInsufficientFunds (NeedToStake amount assetID)) =
     errInsufficientFunds (NeedToStake 0 0)"
| "erase_detail (errInsufficientFunds (NeedToBurn amount assetID)) =
     errInsufficientFunds (NeedToBurn 0 0)"
| "erase_detail (errFetchSubnet subnetID e) = errFetchSubnet subnetID (erase_detail e)"
| "erase_detail (errGenerate e) = errGenerate (erase_detail e)"
| "erase_detail e = e"

definition same_outcome :: "error + 'a \<Rightarrow> error + 'a \<Rightarrow> bool" where
  "same_outcome r1 r2 \<longleftrightarrow>
     (case r1 of
        Inr x \<Rightarrow> r2 = Inr x
      | Inl e1 \<Rightarrow> (case r2 of Inl e2 \<Rightarrow> erase_detail e1 = erase_detail e2 | Inr y \<Rightarrow> False))"

section \<open>A small wallet\<close>

text \<open>
  A wallet that controls the one address \<open>1\<close>, on a chain whose native asset is \<open>7\<close>,
  with a base fee of 10 and a subnet creation fee of 3. The platform chain holds the
  UTXOs it is given; every other chain holds plain native-asset UTXOs of the given
  amounts, all owned by the wallet's address; every subnet was created with the wallet's
  address as its owner. The codec writes the amount of a payload, \<open>Peek\<close> picks the
  least address of the set, and the \<^verbatim>\<open>range\<close> loops visit their maps in the orders
  given.
\<close>

definition ex_owner :: OutputOwners where
  "ex_owner = \<lparr>Locktime = 0, Threshold = 1, Addrs = [1]\<rparr>"

definition ex_backend :: "UTXO list \<Rightarrow> u64 list \<Rightarrow> Backend" where
  "ex_backend local foreign =
     \<lparr>ctx_NetworkID = 5, DJTXAssetID = 7, BaseTxFee = 10, CreateSubnetTxFee = 3,
      UTXOs = (\<lambda>chain.
        if chain = PlatformChainID then Inr local
        else Inr (map (\<lambda>(i, amt). UTXO (2, of_nat i) 7 (TransferOutput amt ex_owner))
                    (enumerate 0 foreign))),
      GetTx = (\<lambda>txID. Inr (UnsignedCreateSubnetTx
        \<lparr>NetworkID = 5, BlockchainID = 0, Ins = [], Outs = [], Memo = []\<rparr> (Owner ex_owner)))\<rparr>"

definition ex_builder :: "UTXO list \<Rightarrow> u64 list \<Rightarrow> builder" where
  "ex_builder local foreign = \<lparr>addrs = {1}, backend = ex_backend local foreign\<rparr>"

definition ex_runtime :: "nat list \<Rightarrow> nat list \<Rightarrow> runtime" where
  "ex_runtime stakeOrder burnOrder =
     \<lparr>Codec = (\<lambda>out. [unat (Amount out)]),
      Peek = (\<lambda>s. if s = {} then None else Some (Min s)),
      stakeRange = stakeOrder, burnRange = burnOrder\<rparr>"

definition ex_options :: Options where
  "ex_options = \<lparr>minIssuanceTime = 100, changeOwner = None, memo = []\<rparr>"

definition ex_validator :: Validator where
  "ex_validator = \<lparr>NodeID = 3, Start = 0, End = 9, Wght = 6\<rparr>"

definition ex_subnet_validator :: SubnetValidator where
  "ex_subnet_validator = \<lparr>NodeID = 3, Start = 0, End = 9, Wght = 6, Subnet = 11\<rparr>"

text \<open>
  The wallet with one plain UTXO of 20 units of the native asset on the platform chain
  and one of 4 units on every other chain, and the runtime whose \<^verbatim>\<open>range\<close> loops visit
  the keys in the order of the association list.
\<close>

definition ex_wallet :: builder where
  "ex_wallet = ex_builder [UTXO (1, 0) 7 (TransferOutput 20 ex_owner)] [4]"

definition ex_rt :: runtime where
  "ex_rt = ex_runtime [] []"

text \<open>
  Owners of two addresses, of which the wallet controls the second, and two stake-locked
  UTXOs of theirs: one locked until time 200, after the issuance time of the example
  options, and one locked until time 50, before it.
\<close>

definition ex_owner2 :: OutputOwners where
  "ex_owner2 = \<lparr>Locktime = 0, Threshold = 1, Addrs = [2, 1]\<rparr>"

definition ex_locked :: UTXO where
  "ex_locked = UTXO (1, 0) 7 (StakeableLockOut 200 (TransferOutput 20 ex_owner2))"

definition ex_matured :: UTXO where
  "ex_matured = UTXO (1, 1) 7 (StakeableLockOut 50 (TransferOutput 20 ex_owner2))"

text \<open>
  The wallet of the import-shortfall scenario: the base fee is 10, the source chain holds
  one plain UTXO of 4 units of the native asset, and the platform chain holds one plain
  UTXO of 10 units of the native asset owned by the wallet's address.
\<close>

definition scenario_wallet :: builder where
  "scenario_wallet = ex_builder [UTXO (1, 0) 7 (TransferOutput 10 ex_owner)] [4]"

section \<open>Properties of the matcher\<close>


lemma unat_of_nat32: "n < 2 ^ 32 \<Longrightarrow> unat (of_nat n :: u32) = n"
  by (simp add: unat_of_nat)

lemma match_loop_eq:
  "length (Addrs owners) < 2 ^ 32 \<Longrightarrow> unat i \<le> length (Addrs owners) \<Longrightarrow>
   length sigs \<le> unat i \<Longrightarrow>
   match_loop A owners i sigs =
     sigs @ map of_nat (take (unat (Threshold owners) - length sigs)
              (filter (\<lambda>j. Addrs owners ! j \<in> A) [unat i..<length (Addrs owners)]))"
proof (induction A owners i sigs rule: match_loop.induct)
  case (1 A owners i sigs)
  let ?n = "length (Addrs owners)"
  have n: "unat (of_nat ?n :: u32) = ?n"
    using "1.prems"(1) by (simp add: unat_of_nat32)
  have ilt: "unat i < 2 ^ 32"
    using unsigned_less [of i, where ?'a = nat] by simp
  have l: "unat (of_nat (length sigs) :: u32) = length sigs"
    using "1.prems"(3) ilt by (simp add: unat_of_nat32)
  have c1: "i < of_nat ?n \<longleftrightarrow> unat i < ?n"
    by (simp add: word_less_nat_alt n)
  have c2: "(of_nat (length sigs) :: u32) < Threshold owners \<longleftrightarrow> length sigs < unat (Threshold owners)"
    by (simp add: word_less_nat_alt l)
  show ?case
  proof (cases "unat i < ?n \<and> length sigs < unat (Threshold owners)")
    case True
    then have cond: "i < of_nat ?n \<and> of_nat (length sigs) < Threshold owners"
      using c1 c2 by simp
    from True "1.prems"(1) have "unat i + 1 < 2 ^ 32" by simp
    then have "unat i + unat (1 :: u32) < 2 ^ LENGTH(32)"
      by simp
    then have "unat (i + 1) = unat i + unat (1 :: u32)"
      by (simp only: unat_add_lem)
    then have s: "unat (i + 1) = Suc (unat i)"
      by simp
    let ?sigs' = "if Addrs owners ! unat i \<in> A then sigs @ [i] else sigs"
    have ih: "match_loop A owners (i + 1) ?sigs' =
       ?sigs' @ map of_nat (take (unat (Threshold owners) - length ?sigs')
              (filter (\<lambda>j. Addrs owners ! j \<in> A) [unat (i + 1)..<?n]))"
      using "1.IH" [OF cond refl] "1.prems" True s by auto
    have up: "[unat i..<?n] = unat i # [Suc (unat i)..<?n]"
      using True by (simp add: upt_conv_Cons)
    have "match_loop A owners i sigs = match_loop A owners (i + 1) ?sigs'"
      by (subst match_loop.simps, subst if_P [OF cond]) (simp add: Let_def)
    also have "\<dots> = sigs @ map of_nat (take (unat (Threshold owners) - length sigs)
              (filter (\<lambda>j. Addrs owners ! j \<in> A) [unat i..<?n]))"
    proof (cases "Addrs owners ! unat i \<in> A")
      case a: True
      from True obtain k where k: "unat (Threshold owners) - length sigs = Suc k"
        by (metis Suc_diff_Suc)
      then have k': "unat (Threshold owners) - Suc (length sigs) = k" by simp
      show ?thesis
        unfolding ih up using a s k k' by simp
    next
      case False
      then show ?thesis
        unfolding ih up using s by simp
    qed
    finally show ?thesis .
  next
    case False
    then have ncond: "\<not> (i < of_nat ?n \<and> of_nat (length sigs) < Threshold owners)"
      using c1 c2 by simp
    have "match_loop A owners i sigs = sigs"
      by (subst match_loop.simps, subst if_not_P [OF ncond]) simp
    moreover have "take (unat (Threshold owners) - length sigs)
              (filter (\<lambda>j. Addrs owners ! j \<in> A) [unat i..<?n]) = []"
      using False by auto
    ultimately show ?thesis by simp
  qed
qed


lemma filter_idx_length:
  "length (filter (\<lambda>j. xs ! j \<in> A) [0..<length xs]) = length (filter (\<lambda>a. a \<in> A) xs)"
proof -
  have "filter (\<lambda>a. a \<in> A) (map ((!) xs) [0..<length xs]) =
        map ((!) xs) (filter (\<lambda>j. xs ! j \<in> A) [0..<length xs])"
    by (simp add: filter_map comp_def)
  then have "length (filter (\<lambda>a. a \<in> A) (map ((!) xs) [0..<length xs])) =
        length (filter (\<lambda>j. xs ! j \<in> A) [0..<length xs])"
    by simp
  then show ?thesis by (simp add: map_nth)
qed

lemma match_loop_start:
  assumes "length (Addrs owners) < 2 ^ 32"
  shows "match_loop A owners 0 [] =
     map of_nat (take (unat (Threshold owners))
       (filter (\<lambda>j. Addrs owners ! j \<in> A) [0..<length (Addrs owners)]))"
  using match_loop_eq [OF assms, of 0 "[]" A] by simp

lemma match_loop_zero: "Threshold owners = 0 \<Longrightarrow> match_loop A owners 0 [] = []"
  by (subst match_loop.simps) simp

text \<open>
  Claim C3. For owners whose address list is indexable by a \<^verbatim>\<open>uint32\<close> (fewer than
  \<open>2^32\<close> entries), \<open>match\<close> answers \<open>True\<close> exactly when the minimum issuance time
  has reached the owners' lock time and at least \<open>Threshold\<close> of the listed addresses
  are controlled. When it does, the indices it returns are the positions, in listed
  order, of the first \<open>Threshold\<close> controlled addresses, and there are exactly
  \<open>Threshold\<close> of them. A threshold of zero with an expired lock is always
  satisfied, with no index, whatever the length of the list.
\<close>

theorem match_threshold_correct:
  assumes "length (Addrs owners) < 2 ^ 32"
  shows "(snd (match A owners t) \<longleftrightarrow>
            Locktime owners \<le> t \<and>
            unat (Threshold owners) \<le> length (filter (\<lambda>a. a \<in> A) (Addrs owners))) \<and>
         (snd (match A owners t) \<longrightarrow>
            fst (match A owners t) =
              map of_nat (take (unat (Threshold owners))
                (filter (\<lambda>j. Addrs owners ! j \<in> A) [0..<length (Addrs owners)])) \<and>
            length (fst (match A owners t)) = unat (Threshold owners)) \<and>
         (Threshold owners = 0 \<and> Locktime owners \<le> t \<longrightarrow> match A owners t = ([], True))"
proof -
  let ?idx = "filter (\<lambda>j. Addrs owners ! j \<in> A) [0..<length (Addrs owners)]"
  let ?sigs = "map of_nat (take (unat (Threshold owners)) ?idx) :: u32 list"
  have loop: "match_loop A owners 0 [] = ?sigs"
    by (rule match_loop_start [OF assms])
  have cnt: "length ?idx = length (filter (\<lambda>a. a \<in> A) (Addrs owners))"
    by (rule filter_idx_length)
  have len: "length ?sigs = min (unat (Threshold owners)) (length ?idx)"
    by simp
  have "length ?idx \<le> length (Addrs owners)"
    using length_filter_le [of "\<lambda>j. Addrs owners ! j \<in> A" "[0..<length (Addrs owners)]"] by simp
  then have small: "length ?sigs < 2 ^ 32"
    using assms len by simp
  have eq: "(of_nat (length ?sigs) :: u32) = Threshold owners \<longleftrightarrow>
            length ?sigs = unat (Threshold owners)"
  proof
    assume "(of_nat (length ?sigs) :: u32) = Threshold owners"
    then show "length ?sigs = unat (Threshold owners)"
      using of_nat_inverse [of "length ?sigs" "Threshold owners"] small by simp
  next
    assume "length ?sigs = unat (Threshold owners)"
    then show "(of_nat (length ?sigs) :: u32) = Threshold owners"
      by simp
  qed
  have ok: "snd (match A owners t) \<longleftrightarrow>
            Locktime owners \<le> t \<and> length ?sigs = unat (Threshold owners)"
  proof (cases "Locktime owners > t")
    case True
    then have "\<not> Locktime owners \<le> t" by (simp only: not_le)
    then show ?thesis using True by (simp add: match_def)
  next
    case False
    then have "match A owners t = (?sigs, (of_nat (length ?sigs) :: u32) = Threshold owners)"
      by (simp only: match_def loop Let_def if_False)
    then show ?thesis using False eq by (simp only: snd_conv not_less simp_thms)
  qed
  have sat: "length ?sigs = unat (Threshold owners) \<longleftrightarrow>
             unat (Threshold owners) \<le> length ?idx"
    using len by auto
  have one: "snd (match A owners t) \<longleftrightarrow>
            Locktime owners \<le> t \<and>
            unat (Threshold owners) \<le> length (filter (\<lambda>a. a \<in> A) (Addrs owners))"
    using ok sat cnt by simp
  have two: "snd (match A owners t) \<longrightarrow>
            fst (match A owners t) = ?sigs \<and>
            length (fst (match A owners t)) = unat (Threshold owners)"
  proof
    assume s: "snd (match A owners t)"
    then have "\<not> Locktime owners > t" using ok by (simp add: not_less)
    then have "fst (match A owners t) = ?sigs"
      by (simp only: match_def loop Let_def if_False fst_conv)
    then show "fst (match A owners t) = ?sigs \<and>
            length (fst (match A owners t)) = unat (Threshold owners)"
      using s ok by simp
  qed
  have three: "Threshold owners = 0 \<and> Locktime owners \<le> t \<longrightarrow> match A owners t = ([], True)"
    by (auto simp add: match_def match_loop_zero Let_def)
  show ?thesis
    using one two three by blast
qed

text \<open>The theorem at owners of four addresses, of which the wallet controls three.\<close>

theorem match_threshold_correct_witness:
  "length (Addrs \<lparr>Locktime = 5, Threshold = 2, Addrs = [2, 1, 3, 1]\<rparr>) < 2 ^ 32 \<and>
   Locktime \<lparr>Locktime = 5, Threshold = 2, Addrs = [2, 1, 3, 1]\<rparr> \<le> (7 :: u64) \<and>
   unat (2 :: u32) \<le> length (filter (\<lambda>a. a \<in> {1, 3 :: nat}) [2, 1, 3, 1]) \<and>
   snd (match {1, 3} \<lparr>Locktime = 5, Threshold = 2, Addrs = [2, 1, 3, 1]\<rparr> 7) \<and>
   fst (match {1, 3} \<lparr>Locktime = 5, Threshold = 2, Addrs = [2, 1, 3, 1]\<rparr> 7) = [1, 2] \<and>
   match {1, 3} \<lparr>Locktime = 5, Threshold = 0, Addrs = [2, 1, 3, 1]\<rparr> 7 = ([], True)"
proof -
  let ?ow = "\<lparr>Locktime = 5, Threshold = 2, Addrs = [2, 1, 3, 1 :: nat]\<rparr>"
  let ?oz = "\<lparr>Locktime = 5, Threshold = 0, Addrs = [2, 1, 3, 1 :: nat]\<rparr>"
  have h: "length (Addrs ?ow) < 2 ^ 32" by simp
  have hz: "length (Addrs ?oz) < 2 ^ 32" by simp
  have idx: "filter (\<lambda>j. [2, 1, 3, 1 :: nat] ! j \<in> {1, 3}) [0..<4] = [1, 2, 3]"
    by code_simp
  show ?thesis
    using match_threshold_correct [OF h, of "{1, 3}" 7]
      match_threshold_correct [OF hz, of "{1, 3}" 7] idx
    by simp
qed

section \<open>Arithmetic of amounts and loops\<close>

lemma unat_max64: "unat (- 1 :: u64) = 2 ^ 64 - 1"
  by (simp add: unsigned_minus_1_eq_mask mask_eq_exp_minus_1)

lemma Add64_nat:
  "Add64 a b = (if unat a + unat b < 2 ^ 64 then Inr (a + b) else Inl errOverflow)"
proof -
  have "b \<le> - 1" by simp
  then have "unat (- 1 - b) = unat (- 1 :: u64) - unat b"
    by (rule unat_sub)
  then have s: "unat (- 1 - b) = 2 ^ 64 - 1 - unat b"
    by (simp only: unat_max64)
  have "unat b < 2 ^ 64"
    using unsigned_less [of b, where ?'a = nat] by simp
  then have "(a > - 1 - b) \<longleftrightarrow> \<not> unat a + unat b < 2 ^ 64"
    unfolding word_less_nat_alt s by auto
  then show ?thesis
    by (simp add: Add64_def)
qed

lemma Min64_unat: "unat (Min64 a b) = min (unat a) (unat b)"
  by (auto simp: Min64_def word_less_nat_alt)

lemma Min64_le1: "Min64 a b \<le> a"
  by (auto simp: Min64_def)

lemma Min64_le2: "Min64 a b \<le> b"
  by (auto simp: Min64_def)

lemma Min64_zero: "Min64 0 b = 0"
  by (auto simp: Min64_def word_gt_0)

lemma unat_sub_Min1: "unat (a - Min64 b a) = unat a - min (unat b) (unat a)"
  by (simp add: unat_sub Min64_le2 Min64_unat)

lemma unat_sub_Min2: "unat (a - Min64 a b) = unat a - min (unat a) (unat b)"
  by (simp add: unat_sub Min64_le1 Min64_unat)

lemma amount_of_sub:
  "amount_of (sub_amount m k v) k' = (if k' = k then amount_of m k - v else amount_of m k')"
  by (simp add: amount_of_def sub_amount_def update_conv')

lemma amount_of_set:
  "amount_of (set_amount m k v) k' = (if k' = k then v else amount_of m k')"
  by (simp add: amount_of_def set_amount_def update_conv')

lemma for_each_inv:
  assumes "\<And>x s s'. P s \<Longrightarrow> body x s = Inr s' \<Longrightarrow> P s'"
    and "P s" and "for_each body xs s = Inr s'"
  shows "P s'"
  using assms(2,3)
proof (induction xs arbitrary: s)
  case Nil
  then show ?case by simp
next
  case (Cons x xs)
  then show ?case
    by (auto split: sum.splits intro: assms(1))
qed

lemma for_each_append:
  "for_each body (xs @ ys) s =
     (case for_each body xs s of Inl e \<Rightarrow> Inl e | Inr s' \<Rightarrow> for_each body ys s')"
  by (induction xs arbitrary: s) (auto split: sum.splits)

lemma spend_locked_cases:
  assumes "spend_locked A t u s = Inr s'"
  shows "s' = s \<or>
    (\<exists>lt amt owners sigs.
       utxo_Out u = StakeableLockOut lt (TransferOutput amt owners) \<and> t < lt \<and>
       amount_of (amountsToStake s) (utxo_Asset u) \<noteq> 0 \<and>
       match A owners t = (sigs, True) \<and>
       s' = consume_locked u lt amt owners sigs s)"
  using assms
  by (auto simp: spend_locked_def Let_def not_le split: if_splits out_intf.splits prod.splits)

lemma spend_unlocked_cases:
  assumes "spend_unlocked A t co u s = Inr s'"
  shows "s' = s \<or>
    (\<exists>amt owners sigs.
       unlocked_payload t (utxo_Out u) = Some (TransferOutput amt owners) \<and>
       (amount_of (amountsToStake s) (utxo_Asset u) \<noteq> 0 \<or>
        amount_of (amountsToBurn s) (utxo_Asset u) \<noteq> 0) \<and>
       match A owners t = (sigs, True) \<and>
       s' = consume_unlocked co u amt sigs s)"
  using assms
  by (auto simp: spend_unlocked_def Let_def split: if_splits out_intf.splits prod.splits option.splits)

lemma in_sum_Nil: "in_sum a [] = 0"
  by (simp add: in_sum_def)

lemma in_sum_append: "in_sum a (xs @ ys) = in_sum a xs + in_sum a ys"
  by (simp add: in_sum_def)

lemma in_sum_single:
  "in_sum a [TransferableInput uid b inp] = (if b = a then unat (in_Amount inp) else 0)"
  by (simp add: in_sum_def)

lemma out_sum_Nil: "out_sum a [] = 0"
  by (simp add: out_sum_def)

lemma out_sum_append: "out_sum a (xs @ ys) = out_sum a xs + out_sum a ys"
  by (simp add: out_sum_def)

lemma out_sum_single:
  "out_sum a [TransferableOutput b out] = (if b = a then unat (Amount out) else 0)"
  by (simp add: out_sum_def)

lemma in_sum_Cons: "in_sum a (x # xs) = in_sum a [x] + in_sum a xs"
  by (simp add: in_sum_def)

lemma out_sum_Cons: "out_sum a (x # xs) = out_sum a [x] + out_sum a xs"
  by (simp add: out_sum_def)

lemma in_sum_insort: "in_sum a (insort_key k x xs) = in_sum a [x] + in_sum a xs"
proof (induction xs)
  case Nil
  then show ?case by (simp add: in_sum_Nil)
next
  case (Cons y ys)
  then show ?case
    using in_sum_Cons [of a y "insort_key k x ys"] in_sum_Cons [of a y ys]
      in_sum_Cons [of a x "y # ys"]
    by simp
qed

lemma in_sum_sort: "in_sum a (sort_key k xs) = in_sum a xs"
proof (induction xs)
  case Nil
  then show ?case by simp
next
  case (Cons x xs)
  then show ?case
    using in_sum_Cons [of a x xs] by (simp add: in_sum_insort)
qed

lemma out_sum_insort: "out_sum a (insort_key k x xs) = out_sum a [x] + out_sum a xs"
proof (induction xs)
  case Nil
  then show ?case by (simp add: out_sum_Nil)
next
  case (Cons y ys)
  then show ?case
    using out_sum_Cons [of a y "insort_key k x ys"] out_sum_Cons [of a y ys]
      out_sum_Cons [of a x "y # ys"]
    by simp
qed

lemma out_sum_sort: "out_sum a (sort_key k xs) = out_sum a xs"
proof (induction xs)
  case Nil
  then show ?case by simp
next
  case (Cons x xs)
  then show ?case
    using out_sum_Cons [of a x xs] by (simp add: out_sum_insort)
qed

lemma in_sum_Sort: "in_sum a (SortTransferableInputs xs) = in_sum a xs"
  by (simp add: SortTransferableInputs_def in_sum_sort)

lemma out_sum_Sort: "out_sum a (SortTransferableOutputs xs c) = out_sum a xs"
  by (simp add: SortTransferableOutputs_def out_sum_sort)

lemma word_not_gt_0: "\<not> 0 < (w :: u64) \<Longrightarrow> w = 0"
  by (simp add: word_gt_0)

lemma balanced_consume_locked:
  assumes "balanced a r s"
  shows "balanced a r (consume_locked u lt amt ow sigs s)"
proof -
  let ?rs = "amount_of (amountsToStake s) (utxo_Asset u)"
  let ?st = "Min64 ?rs amt"
  have le: "unat ?st \<le> unat amt"
    by (simp add: Min64_unat)
  have rem: "unat (amt - ?st) = unat amt - unat ?st"
    by (simp add: unat_sub Min64_le2)
  have z: "\<not> 0 < amt - ?st \<Longrightarrow> unat amt = unat ?st"
    using rem le word_not_gt_0 [of "amt - ?st"] by simp
  show ?thesis
    using assms le rem z
    by (auto simp: balanced_def consume_locked_def Let_def in_sum_append in_sum_single
        out_sum_append out_sum_single)
qed

lemma balanced_consume_unlocked:
  assumes "balanced a r s"
  shows "balanced a r (consume_unlocked co u amt sigs s)"
proof -
  let ?rs = "amount_of (amountsToStake s) (utxo_Asset u)"
  let ?rb = "amount_of (amountsToBurn s) (utxo_Asset u)"
  let ?bu = "Min64 ?rb amt"
  let ?av = "amt - ?bu"
  let ?st = "Min64 ?rs ?av"
  let ?re = "?av - ?st"
  have b1: "unat ?bu \<le> unat amt" and b2: "unat ?bu \<le> unat ?rb"
    by (simp_all add: Min64_unat)
  have av: "unat ?av = unat amt - unat ?bu"
    by (simp add: unat_sub Min64_le2)
  have s1: "unat ?st \<le> unat ?av"
    by (simp add: Min64_unat)
  have re: "unat ?re = unat ?av - unat ?st"
    by (simp add: unat_sub Min64_le2)
  have rb: "unat (?rb - ?bu) = unat ?rb - unat ?bu"
    by (simp add: unat_sub Min64_le1)
  have z1: "\<not> 0 < ?st \<Longrightarrow> unat ?st = 0"
    using word_not_gt_0 [of ?st] by simp
  have z2: "\<not> 0 < ?re \<Longrightarrow> unat ?re = 0"
    using word_not_gt_0 [of ?re] by simp
  show ?thesis
  proof (cases "utxo_Asset u = a")
    case False
    then show ?thesis
      using assms
      by (auto simp: balanced_def consume_unlocked_def Let_def in_sum_append in_sum_single
          out_sum_append out_sum_single amount_of_sub)
  next
    case True
    have i: "in_sum a (inputs (consume_unlocked co u amt sigs s)) = in_sum a (inputs s) + unat amt"
      using True by (simp add: consume_unlocked_def Let_def in_sum_append in_sum_single)
    have b: "unat (amount_of (amountsToBurn (consume_unlocked co u amt sigs s)) a) =
             unat ?rb - unat ?bu"
      using True rb by (simp add: consume_unlocked_def Let_def amount_of_sub)
    have st: "out_sum a (stakeOutputs (consume_unlocked co u amt sigs s)) =
             out_sum a (stakeOutputs s) + unat ?st"
      using True z1 by (simp add: consume_unlocked_def Let_def out_sum_append out_sum_single)
    have ch: "out_sum a (changeOutputs (consume_unlocked co u amt sigs s)) =
             out_sum a (changeOutputs s) + unat ?re"
      using True z2 by (simp add: consume_unlocked_def Let_def out_sum_append out_sum_single)
    have "in_sum a (inputs s) + unat ?rb =
       out_sum a (changeOutputs s) + out_sum a (stakeOutputs s) + unat r"
      using assms True by (simp add: balanced_def)
    then show ?thesis
      unfolding balanced_def i b st ch using b1 b2 av s1 re by linarith
  qed
qed

lemma balanced_spend_locked:
  "balanced a r s \<Longrightarrow> spend_locked A t u s = Inr s' \<Longrightarrow> balanced a r s'"
  using spend_locked_cases [of A t u s s'] balanced_consume_locked by blast

lemma balanced_spend_unlocked:
  "balanced a r s \<Longrightarrow> spend_unlocked A t co u s = Inr s' \<Longrightarrow> balanced a r s'"
  using spend_unlocked_cases [of A t co u s s'] balanced_consume_unlocked by blast

lemma balanced_spend_scan:
  assumes "balanced a r s" and "spend_scan A t co utxos s = Inr s'"
  shows "balanced a r s'"
proof -
  from assms(2) obtain s1 where
    p1: "for_each (spend_locked A t) utxos s = Inr s1" and
    p2: "for_each (spend_unlocked A t co) utxos s1 = Inr s'"
    by (auto simp: spend_scan_def split: sum.splits)
  have "balanced a r s1"
    using for_each_inv [of "balanced a r" "spend_locked A t", OF _ assms(1) p1]
      balanced_spend_locked by blast
  then show ?thesis
    using for_each_inv [of "balanced a r" "spend_unlocked A t co", OF _ _ p2]
      balanced_spend_unlocked by blast
qed

lemma balanced_init: "balanced a (amount_of toBurn a) (spend_init toBurn toStake)"
  by (simp add: balanced_def spend_init_def in_sum_Nil out_sum_Nil)

lemma set_shuffle: "set (shuffle ns xs) = set xs"
proof (induction ns arbitrary: xs)
  case Nil
  then show ?case by simp
next
  case (Cons n ns)
  show ?case
  proof (cases "xs = []")
    case True
    then show ?thesis by simp
  next
    case False
    let ?i = "n mod length xs"
    have i: "?i < length xs" using False by simp
    have "set xs = set (take ?i xs @ xs ! ?i # drop (Suc ?i) xs)"
      using id_take_nth_drop [OF i] by simp
    then have "set xs = insert (xs ! ?i) (set (take ?i xs @ drop (Suc ?i) xs))"
      by simp
    then show ?thesis
      using False Cons.IH [of "take ?i xs @ drop (Suc ?i) xs"] by (simp add: Let_def)
  qed
qed

lemma amount_of_nonzero_key: "amount_of m a \<noteq> 0 \<Longrightarrow> a \<in> fst ` set m"
  by (auto simp: amount_of_def split: option.splits dest: map_of_SomeD intro: rev_image_eqI)

lemma set_range_map: "set (range_map order m) = (\<lambda>k. (k, amount_of m k)) ` fst ` set m"
  by (simp add: range_map_def set_shuffle)

lemma first_nonzero_None: "first_nonzero order m = None \<longleftrightarrow> (\<forall>a. amount_of m a = 0)"
proof
  assume n: "first_nonzero order m = None"
  show "\<forall>a. amount_of m a = 0"
  proof (rule allI, rule ccontr)
    fix a assume a: "amount_of m a \<noteq> 0"
    then have "(a, amount_of m a) \<in> set (range_map order m)"
      using amount_of_nonzero_key [OF a] by (simp add: set_range_map)
    with n a show False
      by (auto simp: first_nonzero_def find_None_iff)
  qed
next
  assume "\<forall>a. amount_of m a = 0"
  then show "first_nonzero order m = None"
    by (auto simp: first_nonzero_def find_None_iff set_range_map)
qed

lemma nth_mem_eq: "i < length xs \<Longrightarrow> xs ! i = x \<Longrightarrow> x \<in> set xs"
  by auto

lemma first_nonzero_Some:
  assumes "first_nonzero order m = Some (a, amt)"
  shows "amt = amount_of m a \<and> amt \<noteq> 0"
proof -
  from assms have "(a, amt) \<in> set (range_map order m)" and "amt \<noteq> 0"
    by (auto simp: first_nonzero_def find_Some_iff intro: nth_mem_eq)
  then show ?thesis
    by (auto simp: set_range_map)
qed

lemma spend_finish_Inr:
  assumes "spend_finish rt s = Inr (ins, chg, stk)"
  shows "(\<forall>a. amount_of (amountsToStake s) a = 0) \<and> (\<forall>a. amount_of (amountsToBurn s) a = 0) \<and>
     ins = SortTransferableInputs (inputs s) \<and>
     chg = SortTransferableOutputs (changeOutputs s) (Codec rt) \<and>
     stk = SortTransferableOutputs (stakeOutputs s) (Codec rt)"
proof -
  from assms have n1: "first_nonzero (stakeRange rt) (amountsToStake s) = None"
    by (auto simp: spend_finish_def split: option.splits)
  with assms have n2: "first_nonzero (burnRange rt) (amountsToBurn s) = None"
    by (auto simp: spend_finish_def split: option.splits)
  show ?thesis
    using assms n1 n2 first_nonzero_None [of "stakeRange rt" "amountsToStake s"]
      first_nonzero_None [of "burnRange rt" "amountsToBurn s"]
    by (simp add: spend_finish_def)
qed

lemma spend_Inr:
  assumes "spend rt b toBurn toStake ops = Inr r"
  shows "\<exists>utxos addr s.
     UTXOs (backend b) PlatformChainID = Inr utxos \<and> Peek rt (addrs b) = Some addr \<and>
     spend_scan (addrs b) (MinIssuanceTime ops) (resolve_changeOwner ops addr) utxos
       (spend_init toBurn toStake) = Inr s \<and>
     spend_finish rt s = Inr r"
  using assms
  by (auto simp: spend_def Let_def split: sum.splits option.splits)

lemma spend_conserves:
  assumes "spend rt b toBurn toStake ops = Inr (ins, chg, stk)"
  shows "in_sum a ins = out_sum a chg + out_sum a stk + unat (amount_of toBurn a)"
proof -
  from spend_Inr [OF assms] obtain utxos addr s where
    sc: "spend_scan (addrs b) (MinIssuanceTime ops) (resolve_changeOwner ops addr) utxos
       (spend_init toBurn toStake) = Inr s" and
    fin: "spend_finish rt s = Inr (ins, chg, stk)"
    by blast
  have bal: "balanced a (amount_of toBurn a) s"
    using balanced_spend_scan [OF balanced_init sc] .
  from spend_finish_Inr [OF fin] have
    z: "amount_of (amountsToBurn s) a = 0" and
    i: "ins = SortTransferableInputs (inputs s)" and
    c: "chg = SortTransferableOutputs (changeOutputs s) (Codec rt)" and
    k: "stk = SortTransferableOutputs (stakeOutputs s) (Codec rt)"
    by simp_all
  show ?thesis
    using bal z by (simp add: balanced_def i c k in_sum_Sort out_sum_Sort)
qed

lemma no_stake_consume_unlocked:
  assumes "\<forall>a. amount_of (amountsToStake s) a = 0" and "stakeOutputs s = []"
  shows "(\<forall>a. amount_of (amountsToStake (consume_unlocked co u amt sigs s)) a = 0) \<and>
         stakeOutputs (consume_unlocked co u amt sigs s) = []"
  using assms by (simp add: consume_unlocked_def Let_def Min64_zero amount_of_sub)

lemma no_stake_spend_locked:
  assumes "\<forall>a. amount_of (amountsToStake s) a = 0" and "spend_locked A t u s = Inr s'"
  shows "s' = s"
  using assms by (simp add: spend_locked_def)

lemma no_stake_spend_unlocked:
  assumes "(\<forall>a. amount_of (amountsToStake s) a = 0) \<and> stakeOutputs s = []"
    and "spend_unlocked A t co u s = Inr s'"
  shows "(\<forall>a. amount_of (amountsToStake s') a = 0) \<and> stakeOutputs s' = []"
  using spend_unlocked_cases [OF assms(2)] assms(1) no_stake_consume_unlocked by blast

lemma no_stake_spend_scan:
  assumes "(\<forall>a. amount_of (amountsToStake s) a = 0) \<and> stakeOutputs s = []"
    and "spend_scan A t co utxos s = Inr s'"
  shows "stakeOutputs s' = []"
proof -
  let ?P = "\<lambda>s. (\<forall>a. amount_of (amountsToStake s) a = 0) \<and> stakeOutputs s = []"
  from assms(2) obtain s1 where
    p1: "for_each (spend_locked A t) utxos s = Inr s1" and
    p2: "for_each (spend_unlocked A t co) utxos s1 = Inr s'"
    by (auto simp: spend_scan_def split: sum.splits)
  have "?P s1"
    using for_each_inv [of ?P "spend_locked A t", OF _ assms(1) p1]
      no_stake_spend_locked by blast
  then have "?P s'"
    using for_each_inv [of ?P "spend_unlocked A t co", OF _ _ p2]
      no_stake_spend_unlocked by blast
  then show ?thesis by simp
qed

lemma spend_no_stake:
  assumes "spend rt b toBurn [] ops = Inr (ins, chg, stk)"
  shows "stk = []"
proof -
  from spend_Inr [OF assms] obtain utxos addr s where
    sc: "spend_scan (addrs b) (MinIssuanceTime ops) (resolve_changeOwner ops addr) utxos
       (spend_init toBurn []) = Inr s" and
    fin: "spend_finish rt s = Inr (ins, chg, stk)"
    by blast
  have "(\<forall>a. amount_of (amountsToStake (spend_init toBurn [])) a = 0) \<and>
        stakeOutputs (spend_init toBurn []) = []"
    by (simp add: spend_init_def amount_of_def)
  then have "stakeOutputs s = []"
    using no_stake_spend_scan sc by blast
  then show ?thesis
    using spend_finish_Inr [OF fin] by (simp add: SortTransferableOutputs_def)
qed

lemma spend_burn_only:
  assumes "spend rt b toBurn [] ops = Inr (ins, chg, stk)"
  shows "in_sum a ins = out_sum a chg + unat (amount_of toBurn a)"
  using spend_conserves [OF assms, of a] spend_no_stake [OF assms] by (simp add: out_sum_Nil)

lemma amount_of_Nil: "amount_of [] a = 0"
  by (simp add: amount_of_def)

lemma amount_of_single: "amount_of [(k, v)] a = (if a = k then v else 0)"
  by (simp add: amount_of_def)

lemma conserve_AddValidator:
  assumes "NewAddValidatorTx rt b v ro sh ops = Inr tx"
  shows "in_sum a (tx_inputs tx) = out_sum a (tx_outputs tx)"
proof -
  from assms obtain ins chg stk where
    sp: "spend rt b [] [(DJTXAssetID (backend b), Wght v)] ops = Inr (ins, chg, stk)" and
    tx: "tx = UnsignedAddValidatorTx (base_tx b ops ins chg) v stk
              (ro\<lparr>Addrs := SortShortIDs (Addrs ro)\<rparr>) sh"
    by (auto simp: NewAddValidatorTx_def Let_def split: sum.splits prod.splits)
  show ?thesis
    using spend_conserves [OF sp, of a]
    by (simp add: tx base_tx_def out_sum_append amount_of_Nil)
qed

lemma conserve_AddDelegator:
  assumes "NewAddDelegatorTx rt b v ro ops = Inr tx"
  shows "in_sum a (tx_inputs tx) = out_sum a (tx_outputs tx)"
proof -
  from assms obtain ins chg stk where
    sp: "spend rt b [] [(DJTXAssetID (backend b), Wght v)] ops = Inr (ins, chg, stk)" and
    tx: "tx = UnsignedAddDelegatorTx (base_tx b ops ins chg) v stk
              (ro\<lparr>Addrs := SortShortIDs (Addrs ro)\<rparr>)"
    by (auto simp: NewAddDelegatorTx_def Let_def split: sum.splits prod.splits)
  show ?thesis
    using spend_conserves [OF sp, of a]
    by (simp add: tx base_tx_def out_sum_append amount_of_Nil)
qed

lemma conserve_AddSubnetValidator:
  assumes "NewAddSubnetValidatorTx rt b v ops = Inr tx"
  shows "in_sum a (tx_inputs tx) =
         out_sum a (tx_outputs tx) +
         (if a = DJTXAssetID (backend b) then unat (CreateSubnetTxFee (backend b)) else 0)"
proof -
  from assms obtain ins chg stk auth where
    sp: "spend rt b [(DJTXAssetID (backend b), CreateSubnetTxFee (backend b))] [] ops =
         Inr (ins, chg, stk)" and
    tx: "tx = UnsignedAddSubnetValidatorTx (base_tx b ops ins chg) v auth"
    by (auto simp: NewAddSubnetValidatorTx_def Let_def split: sum.splits prod.splits)
  show ?thesis
    using spend_burn_only [OF sp, of a]
    by (simp add: tx base_tx_def amount_of_single)
qed

lemma conserve_CreateChain:
  assumes "NewCreateChainTx rt b sid gen vm fxs name ops = Inr tx"
  shows "in_sum a (tx_inputs tx) =
         out_sum a (tx_outputs tx) +
         (if a = DJTXAssetID (backend b) then unat (CreateSubnetTxFee (backend b)) else 0)"
proof -
  from assms obtain ins chg stk auth where
    sp: "spend rt b [(DJTXAssetID (backend b), CreateSubnetTxFee (backend b))] [] ops =
         Inr (ins, chg, stk)" and
    tx: "tx = UnsignedCreateChainTx (base_tx b ops ins chg) sid name vm (SortIDs fxs) gen auth"
    by (auto simp: NewCreateChainTx_def Let_def split: sum.splits prod.splits)
  show ?thesis
    using spend_burn_only [OF sp, of a]
    by (simp add: tx base_tx_def amount_of_single)
qed

lemma conserve_CreateSubnet:
  assumes "NewCreateSubnetTx rt b own ops = Inr tx"
  shows "in_sum a (tx_inputs tx) =
         out_sum a (tx_outputs tx) +
         (if a = DJTXAssetID (backend b) then unat (CreateSubnetTxFee (backend b)) else 0)"
proof -
  from assms obtain ins chg stk where
    sp: "spend rt b [(DJTXAssetID (backend b), CreateSubnetTxFee (backend b))] [] ops =
         Inr (ins, chg, stk)" and
    tx: "tx = UnsignedCreateSubnetTx (base_tx b ops ins chg)
              (Owner (own\<lparr>Addrs := SortShortIDs (Addrs own)\<rparr>))"
    by (auto simp: NewCreateSubnetTx_def Let_def split: sum.splits prod.splits)
  show ?thesis
    using spend_burn_only [OF sp, of a]
    by (simp add: tx base_tx_def amount_of_single)
qed

section \<open>The loops of the import and of the export\<close>

lemma import_utxo_step:
  "import_utxo A d t u (ins0, amt0) =
     (if eligible A d t u
      then (case Add64 amt0 (Amount (utxo_Out u)) of
              Inl e \<Rightarrow> Inl e
            | Inr n \<Rightarrow> Inr (ins0 @ [imported_input A t u], n))
      else Inr (ins0, amt0))"
  by (cases "utxo_Out u")
    (auto simp: import_utxo_def eligible_def imported_input_def split: prod.splits sum.splits)

lemma eligible_sum_Nil: "eligible_sum A d t [] = 0"
  by (simp add: eligible_sum_def)

lemma eligible_sum_Cons:
  "eligible_sum A d t (u # us) =
     (if eligible A d t u then unat (Amount (utxo_Out u)) else 0) + eligible_sum A d t us"
  by (simp add: eligible_sum_def)

lemma import_loop:
  "for_each (import_utxo A d t) utxos (ins0, amt0) =
     (if unat amt0 + eligible_sum A d t utxos < 2 ^ 64
      then Inr (ins0 @ map (imported_input A t) (filter (eligible A d t) utxos),
                amt0 + of_nat (eligible_sum A d t utxos))
      else Inl errOverflow)"
proof (induction utxos arbitrary: ins0 amt0)
  case Nil
  have "unat amt0 < 2 ^ 64"
    using unsigned_less [of amt0, where ?'a = nat] by simp
  then show ?case by (simp add: eligible_sum_Nil)
next
  case (Cons u us)
  show ?case
  proof (cases "eligible A d t u")
    case False
    then show ?thesis
      using Cons.IH [of ins0 amt0] by (simp add: import_utxo_step eligible_sum_Cons)
  next
    case True
    let ?amt = "Amount (utxo_Out u)"
    show ?thesis
    proof (cases "unat amt0 + unat ?amt < 2 ^ 64")
      case ov: False
      then have "\<not> unat amt0 + eligible_sum A d t (u # us) < 2 ^ 64"
        using True by (simp add: eligible_sum_Cons)
      then show ?thesis
        using True ov by (simp add: import_utxo_step Add64_nat)
    next
      case ok: True
      then have "unat amt0 + unat ?amt < 2 ^ LENGTH(64)" by simp
      then have u: "unat (amt0 + ?amt) = unat amt0 + unat ?amt"
        by (simp only: unat_add_lem)
      have step: "import_utxo A d t u (ins0, amt0) =
                  Inr (ins0 @ [imported_input A t u], amt0 + ?amt)"
        using True ok by (simp add: import_utxo_step Add64_nat)
      have lhs: "for_each (import_utxo A d t) (u # us) (ins0, amt0) =
                 for_each (import_utxo A d t) us (ins0 @ [imported_input A t u], amt0 + ?amt)"
        by (simp add: step)
      have cond: "(unat (amt0 + ?amt) + eligible_sum A d t us < 2 ^ 64) =
                  (unat amt0 + eligible_sum A d t (u # us) < 2 ^ 64)"
        using u True by (simp add: eligible_sum_Cons add.assoc)
      have w: "amt0 + ?amt + of_nat (eligible_sum A d t us) =
               amt0 + of_nat (eligible_sum A d t (u # us))"
        using True by (simp add: eligible_sum_Cons)
      have f: "(ins0 @ [imported_input A t u]) @ map (imported_input A t) (filter (eligible A d t) us) =
               ins0 @ map (imported_input A t) (filter (eligible A d t) (u # us))"
        using True by simp
      show ?thesis
        by (simp only: lhs Cons.IH cond w f)
    qed
  qed
qed

lemma in_sum_imported:
  "in_sum a (map (imported_input A t) (filter (eligible A d t) utxos)) =
     (if a = d then eligible_sum A d t utxos else 0)"
proof (induction utxos)
  case Nil
  then show ?case by (simp add: in_sum_Nil eligible_sum_Nil)
next
  case (Cons u us)
  show ?case
  proof (cases "eligible A d t u")
    case False
    then show ?thesis using Cons by (simp add: eligible_sum_Cons)
  next
    case True
    then obtain amt ow where o: "utxo_Out u = TransferOutput amt ow" and d: "utxo_Asset u = d"
      by (auto simp: eligible_def split: out_intf.splits)
    have "in_sum a [imported_input A t u] = (if a = d then unat amt else 0)"
      by (auto simp: imported_input_def o d in_sum_single)
    then show ?thesis
      using True Cons
        in_sum_Cons [of a "imported_input A t u"
          "map (imported_input A t) (filter (eligible A d t) us)"] o
      by (simp add: eligible_sum_Cons)
  qed
qed

lemma length_Sort_inputs: "length (SortTransferableInputs xs) = length xs"
  by (simp add: SortTransferableInputs_def)

lemma NewImportTx_eval:
  assumes "UTXOs (backend b) src = Inr utxos"
  shows "NewImportTx rt b src to ops =
     (let A = addrs b; d = DJTXAssetID (backend b); t = MinIssuanceTime ops;
          fee = BaseTxFee (backend b);
          total = eligible_sum A d t utxos;
          importedAmount = (of_nat total :: u64);
          importedInputs = SortTransferableInputs (map (imported_input A t) (filter (eligible A d t) utxos))
      in if \<not> total < 2 ^ 64 then Inl errOverflow
         else if filter (eligible A d t) utxos = [] then Inl (errInsufficientFunds NoUTXOsToImport)
         else if importedAmount < fee
         then (case spend rt b [(d, fee - importedAmount)] [] ops of
                 Inl e \<Rightarrow> Inl (errGenerate e)
               | Inr (ins, outs, _) \<Rightarrow>
                   Inr (UnsignedImportTx (base_tx b ops ins outs) src importedInputs))
         else if importedAmount > fee
         then (case Peek rt (addrs b) of
                 None \<Rightarrow> Inl errNoChangeAddress
               | Some addr \<Rightarrow>
                   Inr (UnsignedImportTx
                          (base_tx b ops []
                             [TransferableOutput d
                                (TransferOutput (importedAmount - fee) (resolve_changeOwner ops addr))])
                          src importedInputs))
         else Inr (UnsignedImportTx (base_tx b ops [] []) src importedInputs))"
proof -
  have loop: "for_each (import_utxo (addrs b) (DJTXAssetID (backend b)) (MinIssuanceTime ops)) utxos ([], 0) =
     (if eligible_sum (addrs b) (DJTXAssetID (backend b)) (MinIssuanceTime ops) utxos < 2 ^ 64
      then Inr (map (imported_input (addrs b) (MinIssuanceTime ops))
                  (filter (eligible (addrs b) (DJTXAssetID (backend b)) (MinIssuanceTime ops)) utxos),
                of_nat (eligible_sum (addrs b) (DJTXAssetID (backend b)) (MinIssuanceTime ops) utxos))
      else Inl errOverflow)"
    using import_loop [of "addrs b" "DJTXAssetID (backend b)" "MinIssuanceTime ops" utxos "[]" 0]
    by simp
  show ?thesis
    unfolding NewImportTx_def Let_def assms sum.case loop
    by (simp add: length_Sort_inputs)
qed

lemma unat_of_nat64: "n < 2 ^ 64 \<Longrightarrow> unat (of_nat n :: u64) = n"
  by (simp add: unat_of_nat)

lemma conserve_Import:
  assumes "NewImportTx rt b src to ops = Inr tx"
  shows "in_sum a (tx_inputs tx) =
         out_sum a (tx_outputs tx) +
         (if a = DJTXAssetID (backend b) then unat (BaseTxFee (backend b)) else 0)"
proof -
  from assms obtain utxos where ut: "UTXOs (backend b) src = Inr utxos"
    by (auto simp: NewImportTx_def split: sum.splits)
  let ?A = "addrs b" and ?d = "DJTXAssetID (backend b)" and ?t = "MinIssuanceTime ops"
    and ?fee = "BaseTxFee (backend b)"
  let ?total = "eligible_sum ?A ?d ?t utxos"
  let ?I = "of_nat ?total :: u64"
  let ?imp = "SortTransferableInputs (map (imported_input ?A ?t) (filter (eligible ?A ?d ?t) utxos))"
  note ev = assms [unfolded NewImportTx_eval [OF ut] Let_def]
  from ev have small: "?total < 2 ^ 64"
    by (auto split: if_splits)
  have I: "unat ?I = ?total"
    using small by (rule unat_of_nat64)
  have imp: "in_sum a ?imp = (if a = ?d then unat ?I else 0)"
    by (simp add: in_sum_Sort in_sum_imported I)
  from ev small have ne: "filter (eligible ?A ?d ?t) utxos \<noteq> []"
    by (auto split: if_splits)
  consider (lt) "?I < ?fee" | (gt) "?I > ?fee" | (eq) "?I = ?fee"
    by (metis linorder_less_linear)
  then show ?thesis
  proof cases
    case lt
    with ev small ne obtain ins outs stk where
      sp: "spend rt b [(?d, ?fee - ?I)] [] ops = Inr (ins, outs, stk)" and
      tx: "tx = UnsignedImportTx (base_tx b ops ins outs) src ?imp"
      by (auto split: sum.splits prod.splits)
    have sub: "unat (?fee - ?I) = unat ?fee - unat ?I"
      using lt by (simp add: unat_sub)
    have le: "unat ?I \<le> unat ?fee"
      using lt by (simp add: word_less_nat_alt)
    show ?thesis
      using spend_burn_only [OF sp, of a] imp sub le
      by (simp add: tx base_tx_def in_sum_append amount_of_single)
  next
    case gt
    then have nlt: "\<not> ?I < ?fee" by simp
    from ev small ne nlt gt obtain addr where
      tx: "tx = UnsignedImportTx
                  (base_tx b ops []
                     [TransferableOutput ?d (TransferOutput (?I - ?fee) (resolve_changeOwner ops addr))])
                  src ?imp"
      by (auto split: option.splits)
    have sub: "unat (?I - ?fee) = unat ?I - unat ?fee"
      using gt by (simp add: unat_sub)
    have le: "unat ?fee \<le> unat ?I"
      using gt by (simp add: word_less_nat_alt)
    show ?thesis
      using imp sub le
      by (simp add: tx base_tx_def in_sum_Nil out_sum_single)
  next
    case eq
    then have "\<not> ?I < ?fee" and "\<not> ?I > ?fee" by simp_all
    with ev small ne have
      tx: "tx = UnsignedImportTx (base_tx b ops [] []) src ?imp"
      by auto
    show ?thesis
      using imp eq
      by (simp add: tx base_tx_def in_sum_Nil out_sum_Nil)
  qed
qed

lemma export_output_step:
  "export_output out m =
     (if unat (amount_of m (out_Asset out)) + unat (Amount (Out out)) < 2 ^ 64
      then Inr (set_amount m (out_Asset out) (amount_of m (out_Asset out) + Amount (Out out)))
      else Inl errOverflow)"
  by (simp add: export_output_def Add64_nat Let_def)

lemma export_loop_Inr:
  assumes "for_each export_output outs m = Inr m'"
  shows "unat (amount_of m' a) = unat (amount_of m a) + out_sum a outs"
  using assms
proof (induction outs arbitrary: m)
  case Nil
  then show ?case by (simp add: out_sum_Nil)
next
  case (Cons out outs)
  let ?k = "out_Asset out" and ?v = "Amount (Out out)"
  have st: "export_output out m =
     (if unat (amount_of m ?k) + unat ?v < 2 ^ 64
      then Inr (set_amount m ?k (amount_of m ?k + ?v)) else Inl errOverflow)"
    by (rule export_output_step)
  from Cons.prems have ok: "unat (amount_of m ?k) + unat ?v < 2 ^ 64"
    by (auto simp: st split: if_splits)
  let ?m1 = "set_amount m ?k (amount_of m ?k + ?v)"
  from Cons.prems ok have rest: "for_each export_output outs ?m1 = Inr m'"
    by (simp add: st)
  from ok have "unat (amount_of m ?k) + unat ?v < 2 ^ LENGTH(64)" by simp
  then have u: "unat (amount_of m ?k + ?v) = unat (amount_of m ?k) + unat ?v"
    by (simp only: unat_add_lem)
  have one: "out_sum a [out] = (if ?k = a then unat ?v else 0)"
    by (cases out) (simp add: out_sum_single)
  have "unat (amount_of ?m1 a) = unat (amount_of m a) + out_sum a [out]"
    using u by (auto simp add: amount_of_set one)
  then show ?case
    using Cons.IH [OF rest] out_sum_Cons [of a out outs] by simp
qed

lemma export_loop_Inl:
  assumes "for_each export_output outs m = Inl e"
  shows "e = errOverflow"
  using assms
proof (induction outs arbitrary: m)
  case Nil
  then show ?case by simp
next
  case (Cons out outs)
  have st: "export_output out m =
     (if unat (amount_of m (out_Asset out)) + unat (Amount (Out out)) < 2 ^ 64
      then Inr (set_amount m (out_Asset out) (amount_of m (out_Asset out) + Amount (Out out)))
      else Inl errOverflow)"
    by (rule export_output_step)
  from Cons show ?case
    by (auto simp: st split: if_splits)
qed

lemma export_loop_overflow:
  assumes "2 ^ 64 \<le> unat (amount_of m a) + out_sum a outs"
  shows "for_each export_output outs m = Inl errOverflow"
proof (cases "for_each export_output outs m")
  case (Inl e)
  then show ?thesis using export_loop_Inl by simp
next
  case (Inr m')
  have "unat (amount_of m' a) < 2 ^ 64"
    using unsigned_less [of "amount_of m' a", where ?'a = nat] by simp
  then show ?thesis
    using export_loop_Inr [OF Inr, of a] assms by simp
qed

lemma conserve_Export:
  assumes "NewExportTx rt b dst outputs ops = Inr tx"
  shows "in_sum a (tx_inputs tx) =
         out_sum a (tx_outputs tx) +
         (if a = DJTXAssetID (backend b) then unat (BaseTxFee (backend b)) else 0)"
proof -
  from assms obtain toBurn ins chg stk where
    lp: "for_each export_output outputs [(DJTXAssetID (backend b), BaseTxFee (backend b))] =
         Inr toBurn" and
    sp: "spend rt b toBurn [] ops = Inr (ins, chg, stk)" and
    tx: "tx = UnsignedExportTx (base_tx b ops ins chg) dst
              (SortTransferableOutputs outputs (Codec rt))"
    by (auto simp: NewExportTx_def split: sum.splits prod.splits)
  show ?thesis
    using spend_burn_only [OF sp, of a] export_loop_Inr [OF lp, of a]
    by (simp add: tx base_tx_def out_sum_append out_sum_Sort amount_of_single)
qed

lemma overflow_Import:
  assumes "UTXOs (backend b) src = Inr utxos"
    and "2 ^ 64 \<le> eligible_sum (addrs b) (DJTXAssetID (backend b)) (MinIssuanceTime ops) utxos"
  shows "NewImportTx rt b src to ops = Inl errOverflow"
  using assms(2) by (simp add: NewImportTx_eval [OF assms(1)] Let_def)

lemma overflow_Export:
  assumes "2 ^ 64 \<le> (if a = DJTXAssetID (backend b) then unat (BaseTxFee (backend b)) else 0) +
                      out_sum a outputs"
  shows "NewExportTx rt b dst outputs ops = Inl errOverflow"
proof -
  have "for_each export_output outputs [(DJTXAssetID (backend b), BaseTxFee (backend b))] =
        Inl errOverflow"
    using assms by (intro export_loop_overflow [where a = a]) (auto simp add: amount_of_single)
  then show ?thesis
    by (simp add: NewExportTx_def)
qed

section \<open>The builds of the small wallet\<close>

lemma ex_match: "match {1} ex_owner 100 = ([0], True)"
  by code_simp

lemma ex_spend:
  "spend ex_rt ex_wallet [(7, 6)] [] ex_options =
     Inr ([TransferableInput (1, 0) 7 (TransferInput 20 [0])],
          [TransferableOutput 7 (TransferOutput 14 ex_owner)], [])"
  by code_simp

lemma ex_AddValidator:
  "NewAddValidatorTx ex_rt ex_wallet ex_validator ex_owner 0 ex_options =
     Inr (UnsignedAddValidatorTx
        \<lparr>NetworkID = 5, BlockchainID = 0,
           Ins = [TransferableInput (1, 0) 7 (TransferInput 20 [0])],
           Outs = [TransferableOutput 7 (TransferOutput 14 ex_owner)],
           Memo = []\<rparr>
        ex_validator [TransferableOutput 7 (TransferOutput 6 ex_owner)] ex_owner 0)"
  by code_simp

lemma ex_AddDelegator:
  "NewAddDelegatorTx ex_rt ex_wallet ex_validator ex_owner ex_options =
     Inr (UnsignedAddDelegatorTx
        \<lparr>NetworkID = 5, BlockchainID = 0,
           Ins = [TransferableInput (1, 0) 7 (TransferInput 20 [0])],
           Outs = [TransferableOutput 7 (TransferOutput 14 ex_owner)],
           Memo = []\<rparr>
        ex_validator [TransferableOutput 7 (TransferOutput 6 ex_owner)] ex_owner)"
  by code_simp

lemma ex_AddSubnetValidator:
  "NewAddSubnetValidatorTx ex_rt ex_wallet ex_subnet_validator ex_options =
     Inr (UnsignedAddSubnetValidatorTx
        \<lparr>NetworkID = 5, BlockchainID = 0,
           Ins = [TransferableInput (1, 0) 7 (TransferInput 20 [0])],
           Outs = [TransferableOutput 7 (TransferOutput 17 ex_owner)],
           Memo = []\<rparr>
        ex_subnet_validator [0])"
  by code_simp

lemma ex_CreateChain:
  "NewCreateChainTx ex_rt ex_wallet 11 [] 12 [14, 13] ''c'' ex_options =
     Inr (UnsignedCreateChainTx
        \<lparr>NetworkID = 5, BlockchainID = 0,
           Ins = [TransferableInput (1, 0) 7 (TransferInput 20 [0])],
           Outs = [TransferableOutput 7 (TransferOutput 17 ex_owner)],
           Memo = []\<rparr>
        11 ''c'' 12 [13, 14] [] [0])"
  by code_simp

lemma ex_CreateSubnet:
  "NewCreateSubnetTx ex_rt ex_wallet ex_owner ex_options =
     Inr (UnsignedCreateSubnetTx
        \<lparr>NetworkID = 5, BlockchainID = 0,
           Ins = [TransferableInput (1, 0) 7 (TransferInput 20 [0])],
           Outs = [TransferableOutput 7 (TransferOutput 17 ex_owner)],
           Memo = []\<rparr>
        (Owner ex_owner))"
  by code_simp

lemma ex_Export:
  "NewExportTx ex_rt ex_wallet 9 [TransferableOutput 7 (TransferOutput 5 ex_owner)] ex_options =
     Inr (UnsignedExportTx
        \<lparr>NetworkID = 5, BlockchainID = 0,
           Ins = [TransferableInput (1, 0) 7 (TransferInput 20 [0])],
           Outs = [TransferableOutput 7 (TransferOutput 5 ex_owner)],
           Memo = []\<rparr>
        9 [TransferableOutput 7 (TransferOutput 5 ex_owner)])"
  by code_simp

lemma ex_Import:
  "NewImportTx ex_rt ex_wallet 9 ex_owner ex_options =
     Inr (UnsignedImportTx
        \<lparr>NetworkID = 5, BlockchainID = 0,
           Ins = [TransferableInput (1, 0) 7 (TransferInput 20 [0])],
           Outs = [TransferableOutput 7 (TransferOutput 14 ex_owner)],
           Memo = []\<rparr>
        9 [TransferableInput (2, 0) 7 (TransferInput 4 [0])])"
  by code_simp

section \<open>Conservation\<close>

text \<open>
  Claim C1. Conservation, for \<open>spend\<close> and for each of the seven assemblers: whenever
  a transaction is built, for every asset the amounts of all its inputs (the imported
  ones included) add up to the amounts of all its outputs (change, stake and exported
  ones included) plus what was asked to be burned of the asset: nothing for a validator
  or a delegator, the subnet creation fee in the native asset for a subnet validator, a
  chain or a subnet, the base fee in the native asset for an import or an export. The
  sums are taken in the natural numbers, so the equation is exact. When the eligible
  amounts of an import, or the fee and the exported amounts of one asset, do not fit in
  64 bits, the assembler fails with the overflow error.
\<close>

theorem build_conserves_assets:
  "(spend rt b toBurn toStake ops = Inr (ins, chg, stk) \<longrightarrow>
      in_sum a ins = out_sum a chg + out_sum a stk + unat (amount_of toBurn a)) \<and>
   (NewAddValidatorTx rt b v ro sh ops = Inr tx \<longrightarrow>
      in_sum a (tx_inputs tx) = out_sum a (tx_outputs tx)) \<and>
   (NewAddDelegatorTx rt b v ro ops = Inr tx \<longrightarrow>
      in_sum a (tx_inputs tx) = out_sum a (tx_outputs tx)) \<and>
   (NewAddSubnetValidatorTx rt b sv ops = Inr tx \<longrightarrow>
      in_sum a (tx_inputs tx) =
        out_sum a (tx_outputs tx) +
        (if a = DJTXAssetID (backend b) then unat (CreateSubnetTxFee (backend b)) else 0)) \<and>
   (NewCreateChainTx rt b sid gen vm fxs name ops = Inr tx \<longrightarrow>
      in_sum a (tx_inputs tx) =
        out_sum a (tx_outputs tx) +
        (if a = DJTXAssetID (backend b) then unat (CreateSubnetTxFee (backend b)) else 0)) \<and>
   (NewCreateSubnetTx rt b own ops = Inr tx \<longrightarrow>
      in_sum a (tx_inputs tx) =
        out_sum a (tx_outputs tx) +
        (if a = DJTXAssetID (backend b) then unat (CreateSubnetTxFee (backend b)) else 0)) \<and>
   (NewImportTx rt b src to ops = Inr tx \<longrightarrow>
      in_sum a (tx_inputs tx) =
        out_sum a (tx_outputs tx) +
        (if a = DJTXAssetID (backend b) then unat (BaseTxFee (backend b)) else 0)) \<and>
   (NewExportTx rt b dst outputs ops = Inr tx \<longrightarrow>
      in_sum a (tx_inputs tx) =
        out_sum a (tx_outputs tx) +
        (if a = DJTXAssetID (backend b) then unat (BaseTxFee (backend b)) else 0)) \<and>
   (UTXOs (backend b) src = Inr utxos \<and>
    2 ^ 64 \<le> eligible_sum (addrs b) (DJTXAssetID (backend b)) (MinIssuanceTime ops) utxos \<longrightarrow>
      NewImportTx rt b src to ops = Inl errOverflow) \<and>
   (2 ^ 64 \<le> (if a = DJTXAssetID (backend b) then unat (BaseTxFee (backend b)) else 0) +
              out_sum a outputs \<longrightarrow>
      NewExportTx rt b dst outputs ops = Inl errOverflow)"
proof (intro conjI impI)
  show "in_sum a ins = out_sum a chg + out_sum a stk + unat (amount_of toBurn a)"
    if "spend rt b toBurn toStake ops = Inr (ins, chg, stk)"
    using that by (rule spend_conserves)
  show "in_sum a (tx_inputs tx) = out_sum a (tx_outputs tx)"
    if "NewAddValidatorTx rt b v ro sh ops = Inr tx"
    using that by (rule conserve_AddValidator)
  show "in_sum a (tx_inputs tx) = out_sum a (tx_outputs tx)"
    if "NewAddDelegatorTx rt b v ro ops = Inr tx"
    using that by (rule conserve_AddDelegator)
  show "in_sum a (tx_inputs tx) =
        out_sum a (tx_outputs tx) +
        (if a = DJTXAssetID (backend b) then unat (CreateSubnetTxFee (backend b)) else 0)"
    if "NewAddSubnetValidatorTx rt b sv ops = Inr tx"
    using that by (rule conserve_AddSubnetValidator)
  show "in_sum a (tx_inputs tx) =
        out_sum a (tx_outputs tx) +
        (if a = DJTXAssetID (backend b) then unat (CreateSubnetTxFee (backend b)) else 0)"
    if "NewCreateChainTx rt b sid gen vm fxs name ops = Inr tx"
    using that by (rule conserve_CreateChain)
  show "in_sum a (tx_inputs tx) =
        out_sum a (tx_outputs tx) +
        (if a = DJTXAssetID (backend b) then unat (CreateSubnetTxFee (backend b)) else 0)"
    if "NewCreateSubnetTx rt b own ops = Inr tx"
    using that by (rule conserve_CreateSubnet)
  show "in_sum a (tx_inputs tx) =
        out_sum a (tx_outputs tx) +
        (if a = DJTXAssetID (backend b) then unat (BaseTxFee (backend b)) else 0)"
    if "NewImportTx rt b src to ops = Inr tx"
    using that by (rule conserve_Import)
  show "in_sum a (tx_inputs tx) =
        out_sum a (tx_outputs tx) +
        (if a = DJTXAssetID (backend b) then unat (BaseTxFee (backend b)) else 0)"
    if "NewExportTx rt b dst outputs ops = Inr tx"
    using that by (rule conserve_Export)
  show "NewImportTx rt b src to ops = Inl errOverflow"
    if "UTXOs (backend b) src = Inr utxos \<and>
        2 ^ 64 \<le> eligible_sum (addrs b) (DJTXAssetID (backend b)) (MinIssuanceTime ops) utxos"
    using that overflow_Import by blast
  show "NewExportTx rt b dst outputs ops = Inl errOverflow"
    if "2 ^ 64 \<le> (if a = DJTXAssetID (backend b) then unat (BaseTxFee (backend b)) else 0) +
              out_sum a outputs"
    using that by (rule overflow_Export)
qed

lemma ex_foreign_overflow:
  "UTXOs (backend (ex_builder [] [9223372036854775808, 9223372036854775808])) 9 =
     Inr [UTXO (2, 0) 7 (TransferOutput 9223372036854775808 ex_owner),
          UTXO (2, 1) 7 (TransferOutput 9223372036854775808 ex_owner)]"
  by (simp add: ex_builder_def ex_backend_def PlatformChainID_def)

lemma ex_builder_sel:
  "addrs (ex_builder l f) = {1}"
  "DJTXAssetID (backend (ex_builder l f)) = 7"
  "BaseTxFee (backend (ex_builder l f)) = 10"
  "CreateSubnetTxFee (backend (ex_builder l f)) = 3"
  by (simp_all add: ex_builder_def ex_backend_def)

lemma ex_eligible_sum_overflow:
  "eligible_sum {1} 7 100
     [UTXO (2, 0) 7 (TransferOutput 9223372036854775808 ex_owner),
      UTXO (2, 1) 7 (TransferOutput 9223372036854775808 ex_owner)] = 18446744073709551616"
  using ex_match by (simp add: eligible_sum_def eligible_def)

lemma ex_wallet_sel:
  "addrs ex_wallet = {1}"
  "DJTXAssetID (backend ex_wallet) = 7"
  "BaseTxFee (backend ex_wallet) = 10"
  "CreateSubnetTxFee (backend ex_wallet) = 3"
  by (simp_all add: ex_wallet_def ex_builder_sel)

text \<open>
  The theorem at the small wallet: the planner and the seven assemblers each build a
  transaction that balances, and the two overflows are reported.
\<close>

theorem build_conserves_assets_witness:
  "spend ex_rt ex_wallet [(7, 6)] [] ex_options =
     Inr ([TransferableInput (1, 0) 7 (TransferInput 20 [0])],
          [TransferableOutput 7 (TransferOutput 14 ex_owner)], []) \<and>
   in_sum 7 [TransferableInput (1, 0) 7 (TransferInput 20 [0])] =
     out_sum 7 [TransferableOutput 7 (TransferOutput 14 ex_owner)] + out_sum 7 [] + 6 \<and>
   (case NewAddValidatorTx ex_rt ex_wallet ex_validator ex_owner 0 ex_options of
      Inl e \<Rightarrow> False
    | Inr tx \<Rightarrow> in_sum 7 (tx_inputs tx) = 20 \<and> out_sum 7 (tx_outputs tx) = 20) \<and>
   (case NewAddDelegatorTx ex_rt ex_wallet ex_validator ex_owner ex_options of
      Inl e \<Rightarrow> False
    | Inr tx \<Rightarrow> in_sum 7 (tx_inputs tx) = 20 \<and> out_sum 7 (tx_outputs tx) = 20) \<and>
   (case NewAddSubnetValidatorTx ex_rt ex_wallet ex_subnet_validator ex_options of
      Inl e \<Rightarrow> False
    | Inr tx \<Rightarrow> in_sum 7 (tx_inputs tx) = 20 \<and> out_sum 7 (tx_outputs tx) + 3 = 20) \<and>
   (case NewCreateChainTx ex_rt ex_wallet 11 [] 12 [14, 13] ''c'' ex_options of
      Inl e \<Rightarrow> False
    | Inr tx \<Rightarrow> in_sum 7 (tx_inputs tx) = 20 \<and> out_sum 7 (tx_outputs tx) + 3 = 20) \<and>
   (case NewCreateSubnetTx ex_rt ex_wallet ex_owner ex_options of
      Inl e \<Rightarrow> False
    | Inr tx \<Rightarrow> in_sum 7 (tx_inputs tx) = 20 \<and> out_sum 7 (tx_outputs tx) + 3 = 20) \<and>
   (case NewImportTx ex_rt ex_wallet 9 ex_owner ex_options of
      Inl e \<Rightarrow> False
    | Inr tx \<Rightarrow> in_sum 7 (tx_inputs tx) = 24 \<and> out_sum 7 (tx_outputs tx) + 10 = 24) \<and>
   (case NewExportTx ex_rt ex_wallet 9 [TransferableOutput 7 (TransferOutput 5 ex_owner)]
           ex_options of
      Inl e \<Rightarrow> False
    | Inr tx \<Rightarrow> in_sum 7 (tx_inputs tx) = 20 \<and> out_sum 7 (tx_outputs tx) + 10 = 20) \<and>
   NewImportTx ex_rt (ex_builder [] [9223372036854775808, 9223372036854775808]) 9 ex_owner
     ex_options = Inl errOverflow \<and>
   NewExportTx ex_rt ex_wallet 9
     [TransferableOutput 7 (TransferOutput 18446744073709551615 ex_owner)] ex_options =
     Inl errOverflow"
proof -
  note T = build_conserves_assets [where a = 7 and rt = ex_rt and ops = ex_options]
  note T1 = T [THEN conjunct1, rule_format]
  note T2 = T [THEN conjunct2, THEN conjunct1, rule_format]
  note T3 = T [THEN conjunct2, THEN conjunct2, THEN conjunct1, rule_format]
  note T4 = T [THEN conjunct2, THEN conjunct2, THEN conjunct2, THEN conjunct1, rule_format]
  note T5 = T [THEN conjunct2, THEN conjunct2, THEN conjunct2, THEN conjunct2, THEN conjunct1,
      rule_format]
  note T6 = T [THEN conjunct2, THEN conjunct2, THEN conjunct2, THEN conjunct2, THEN conjunct2,
      THEN conjunct1, rule_format]
  note T7 = T [THEN conjunct2, THEN conjunct2, THEN conjunct2, THEN conjunct2, THEN conjunct2,
      THEN conjunct2, THEN conjunct1, rule_format]
  note T8 = T [THEN conjunct2, THEN conjunct2, THEN conjunct2, THEN conjunct2, THEN conjunct2,
      THEN conjunct2, THEN conjunct2, THEN conjunct1, rule_format]
  note T9 = T [THEN conjunct2, THEN conjunct2, THEN conjunct2, THEN conjunct2, THEN conjunct2,
      THEN conjunct2, THEN conjunct2, THEN conjunct2, THEN conjunct1, rule_format]
  note T10 = T [THEN conjunct2, THEN conjunct2, THEN conjunct2, THEN conjunct2, THEN conjunct2,
      THEN conjunct2, THEN conjunct2, THEN conjunct2, THEN conjunct2, rule_format]
  have i20: "in_sum 7 [TransferableInput (1, 0) 7 (TransferInput 20 [0])] = 20"
    by (simp add: in_sum_single)
  have i4: "in_sum 7 [TransferableInput (2, 0) 7 (TransferInput 4 [0])] = 4"
    by (simp add: in_sum_single)
  have c1: "in_sum 7 [TransferableInput (1, 0) 7 (TransferInput 20 [0])] =
     out_sum 7 [TransferableOutput 7 (TransferOutput 14 ex_owner)] + out_sum 7 [] + 6"
    using T1 [OF ex_spend] by (simp add: amount_of_single)
  have c2: "case NewAddValidatorTx ex_rt ex_wallet ex_validator ex_owner 0 ex_options of
      Inl e \<Rightarrow> False
    | Inr tx \<Rightarrow> in_sum 7 (tx_inputs tx) = 20 \<and> out_sum 7 (tx_outputs tx) = 20"
    using T2 [OF ex_AddValidator] i20 by (simp add: ex_AddValidator)
  have c3: "case NewAddDelegatorTx ex_rt ex_wallet ex_validator ex_owner ex_options of
      Inl e \<Rightarrow> False
    | Inr tx \<Rightarrow> in_sum 7 (tx_inputs tx) = 20 \<and> out_sum 7 (tx_outputs tx) = 20"
    using T3 [OF ex_AddDelegator] i20 by (simp add: ex_AddDelegator)
  have c4: "case NewAddSubnetValidatorTx ex_rt ex_wallet ex_subnet_validator ex_options of
      Inl e \<Rightarrow> False
    | Inr tx \<Rightarrow> in_sum 7 (tx_inputs tx) = 20 \<and> out_sum 7 (tx_outputs tx) + 3 = 20"
    using T4 [OF ex_AddSubnetValidator] i20
    by (simp add: ex_AddSubnetValidator ex_wallet_sel)
  have c5: "case NewCreateChainTx ex_rt ex_wallet 11 [] 12 [14, 13] ''c'' ex_options of
      Inl e \<Rightarrow> False
    | Inr tx \<Rightarrow> in_sum 7 (tx_inputs tx) = 20 \<and> out_sum 7 (tx_outputs tx) + 3 = 20"
    using T5 [OF ex_CreateChain] i20
    by (simp add: ex_CreateChain ex_wallet_sel)
  have c6: "case NewCreateSubnetTx ex_rt ex_wallet ex_owner ex_options of
      Inl e \<Rightarrow> False
    | Inr tx \<Rightarrow> in_sum 7 (tx_inputs tx) = 20 \<and> out_sum 7 (tx_outputs tx) + 3 = 20"
    using T6 [OF ex_CreateSubnet] i20
    by (simp add: ex_CreateSubnet ex_wallet_sel)
  have c7: "case NewImportTx ex_rt ex_wallet 9 ex_owner ex_options of
      Inl e \<Rightarrow> False
    | Inr tx \<Rightarrow> in_sum 7 (tx_inputs tx) = 24 \<and> out_sum 7 (tx_outputs tx) + 10 = 24"
    using T7 [OF ex_Import]
    by (simp add: ex_Import ex_wallet_sel in_sum_def out_sum_def)
  have c8: "case NewExportTx ex_rt ex_wallet 9 [TransferableOutput 7 (TransferOutput 5 ex_owner)]
           ex_options of
      Inl e \<Rightarrow> False
    | Inr tx \<Rightarrow> in_sum 7 (tx_inputs tx) = 20 \<and> out_sum 7 (tx_outputs tx) + 10 = 20"
    using T8 [OF ex_Export] i20
    by (simp add: ex_Export ex_wallet_sel)
  have c9: "NewImportTx ex_rt (ex_builder [] [9223372036854775808, 9223372036854775808]) 9 ex_owner
     ex_options = Inl errOverflow"
    using ex_foreign_overflow ex_eligible_sum_overflow
    by (intro T9 [where utxos = "[UTXO (2, 0) 7 (TransferOutput 9223372036854775808 ex_owner),
          UTXO (2, 1) 7 (TransferOutput 9223372036854775808 ex_owner)]"])
      (simp add: ex_builder_sel MinIssuanceTime_def ex_options_def)
  have c10: "NewExportTx ex_rt ex_wallet 9
     [TransferableOutput 7 (TransferOutput 18446744073709551615 ex_owner)] ex_options =
     Inl errOverflow"
    by (rule T10) (simp add: ex_wallet_sel out_sum_single)
  show ?thesis
    using ex_spend c1 c2 c3 c4 c5 c6 c7 c8 c9 c10 by blast
qed

section \<open>The second pass: burn, stake, change\<close>

lemma unlocked_payload_Some_iff:
  "unlocked_payload t out = Some (TransferOutput amt owners) \<longleftrightarrow>
     out = TransferOutput amt owners \<or>
     (\<exists>lt. out = StakeableLockOut lt (TransferOutput amt owners) \<and> lt \<le> t)"
  by (cases out) (auto simp: unlocked_payload_def not_less)

lemma spend_unlocked_skip:
  "amount_of (amountsToStake s) (utxo_Asset u) = 0 \<Longrightarrow>
   amount_of (amountsToBurn s) (utxo_Asset u) = 0 \<Longrightarrow>
   spend_unlocked A t co u s = Inr s"
  by (simp add: spend_unlocked_def)

lemma spend_unlocked_consume:
  assumes "amount_of (amountsToStake s) (utxo_Asset u) \<noteq> 0 \<or>
           amount_of (amountsToBurn s) (utxo_Asset u) \<noteq> 0"
    and "unlocked_payload t (utxo_Out u) = Some (TransferOutput amt owners)"
    and "match A owners t = (sigs, True)"
  shows "spend_unlocked A t co u s = Inr (consume_unlocked co u amt sigs s)"
  using assms by (auto simp: spend_unlocked_def Let_def)

lemma consume_unlocked_fields:
  "inputs (consume_unlocked co u amt sigs s) =
     inputs s @ [TransferableInput (utxo_UTXOID u) (utxo_Asset u) (TransferInput amt sigs)]"
  "amountsToBurn (consume_unlocked co u amt sigs s) =
     sub_amount (amountsToBurn s) (utxo_Asset u)
       (Min64 (amount_of (amountsToBurn s) (utxo_Asset u)) amt)"
  "amountsToStake (consume_unlocked co u amt sigs s) =
     sub_amount (amountsToStake s) (utxo_Asset u)
       (Min64 (amount_of (amountsToStake s) (utxo_Asset u))
          (amt - Min64 (amount_of (amountsToBurn s) (utxo_Asset u)) amt))"
  "stakeOutputs (consume_unlocked co u amt sigs s) =
     stakeOutputs s @
       (if Min64 (amount_of (amountsToStake s) (utxo_Asset u))
             (amt - Min64 (amount_of (amountsToBurn s) (utxo_Asset u)) amt) = 0
        then []
        else [TransferableOutput (utxo_Asset u)
                (TransferOutput
                   (Min64 (amount_of (amountsToStake s) (utxo_Asset u))
                      (amt - Min64 (amount_of (amountsToBurn s) (utxo_Asset u)) amt)) co)])"
  "changeOutputs (consume_unlocked co u amt sigs s) =
     changeOutputs s @
       (if amt - Min64 (amount_of (amountsToBurn s) (utxo_Asset u)) amt -
             Min64 (amount_of (amountsToStake s) (utxo_Asset u))
               (amt - Min64 (amount_of (amountsToBurn s) (utxo_Asset u)) amt) = 0
        then []
        else [TransferableOutput (utxo_Asset u)
                (TransferOutput
                   (amt - Min64 (amount_of (amountsToBurn s) (utxo_Asset u)) amt -
                    Min64 (amount_of (amountsToStake s) (utxo_Asset u))
                      (amt - Min64 (amount_of (amountsToBurn s) (utxo_Asset u)) amt)) co)])"
  by (simp_all add: consume_unlocked_def Let_def word_gt_0)

lemma apportion_arith:
  fixes rb rs amt :: u64
  shows "unat (Min64 rb amt) = min (unat rb) (unat amt)"
    and "unat (Min64 rs (amt - Min64 rb amt)) = min (unat rs) (unat amt - unat (Min64 rb amt))"
    and "unat (amt - Min64 rb amt - Min64 rs (amt - Min64 rb amt)) =
         unat amt - unat (Min64 rb amt) - unat (Min64 rs (amt - Min64 rb amt))"
    and "unat (rb - Min64 rb amt) = unat rb - unat (Min64 rb amt)"
    and "unat (rs - Min64 rs (amt - Min64 rb amt)) =
         unat rs - unat (Min64 rs (amt - Min64 rb amt))"
proof -
  show "unat (Min64 rb amt) = min (unat rb) (unat amt)"
    by (simp add: Min64_unat)
  have av: "unat (amt - Min64 rb amt) = unat amt - unat (Min64 rb amt)"
    by (simp add: unat_sub Min64_le2)
  show "unat (Min64 rs (amt - Min64 rb amt)) = min (unat rs) (unat amt - unat (Min64 rb amt))"
    by (simp add: Min64_unat av)
  show "unat (amt - Min64 rb amt - Min64 rs (amt - Min64 rb amt)) =
         unat amt - unat (Min64 rb amt) - unat (Min64 rs (amt - Min64 rb amt))"
    by (simp add: unat_sub Min64_le2 av)
  show "unat (rb - Min64 rb amt) = unat rb - unat (Min64 rb amt)"
    by (simp add: unat_sub Min64_le1)
  show "unat (rs - Min64 rs (amt - Min64 rb amt)) =
         unat rs - unat (Min64 rs (amt - Min64 rb amt))"
    by (simp add: unat_sub Min64_le1)
qed

text \<open>
  Claim C5. In the second pass, a UTXO whose asset needs neither burning nor staking is
  left alone: the state does not change. A UTXO that is matched (a plain transfer
  output, or one under a matured stake lock, whose owners the matcher is satisfied by,
  of an asset that still needs burning or staking) is consumed whole as one input; of
  its amount, as much as the asset still needs is burned first, then as much of the rest
  as the asset still needs is staked, and what is left, if anything, goes to one plain
  change output owned by the change owner; the stake, if any, goes to one plain stake
  output; the burn and stake requirements of the asset go down by exactly the burned
  and staked amounts, and those of every other asset stay as they are.
\<close>

theorem unlocked_pass_apportions:
  "(amount_of (amountsToBurn s) (utxo_Asset u) = 0 \<and>
    amount_of (amountsToStake s) (utxo_Asset u) = 0 \<longrightarrow>
      spend_unlocked A t co u s = Inr s) \<and>
   ((amount_of (amountsToBurn s) (utxo_Asset u) \<noteq> 0 \<or>
     amount_of (amountsToStake s) (utxo_Asset u) \<noteq> 0) \<and>
    (utxo_Out u = TransferOutput amt owners \<or>
     (\<exists>lt. utxo_Out u = StakeableLockOut lt (TransferOutput amt owners) \<and> lt \<le> t)) \<and>
    match A owners t = (sigs, True) \<longrightarrow>
      (\<exists>(burned :: u64) (staked :: u64) (left :: u64) s'.
         spend_unlocked A t co u s = Inr s' \<and>
         unat burned = min (unat (amount_of (amountsToBurn s) (utxo_Asset u))) (unat amt) \<and>
         unat staked =
           min (unat (amount_of (amountsToStake s) (utxo_Asset u))) (unat amt - unat burned) \<and>
         unat left = unat amt - unat burned - unat staked \<and>
         inputs s' = inputs s @
           [TransferableInput (utxo_UTXOID u) (utxo_Asset u) (TransferInput amt sigs)] \<and>
         stakeOutputs s' = stakeOutputs s @
           (if staked = 0 then []
            else [TransferableOutput (utxo_Asset u) (TransferOutput staked co)]) \<and>
         changeOutputs s' = changeOutputs s @
           (if left = 0 then []
            else [TransferableOutput (utxo_Asset u) (TransferOutput left co)]) \<and>
         (\<forall>a. unat (amount_of (amountsToBurn s') a) =
              unat (amount_of (amountsToBurn s) a) - (if a = utxo_Asset u then unat burned else 0)) \<and>
         (\<forall>a. unat (amount_of (amountsToStake s') a) =
              unat (amount_of (amountsToStake s) a) - (if a = utxo_Asset u then unat staked else 0))))"
proof (intro conjI impI)
  assume "amount_of (amountsToBurn s) (utxo_Asset u) = 0 \<and>
    amount_of (amountsToStake s) (utxo_Asset u) = 0"
  then show "spend_unlocked A t co u s = Inr s"
    by (simp add: spend_unlocked_skip)
next
  let ?a = "utxo_Asset u"
  let ?rb = "amount_of (amountsToBurn s) ?a" and ?rs = "amount_of (amountsToStake s) ?a"
  let ?burned = "Min64 ?rb amt"
  let ?staked = "Min64 ?rs (amt - ?burned)"
  let ?left = "amt - ?burned - ?staked"
  let ?s' = "consume_unlocked co u amt sigs s"
  assume h: "(?rb \<noteq> 0 \<or> ?rs \<noteq> 0) \<and>
    (utxo_Out u = TransferOutput amt owners \<or>
     (\<exists>lt. utxo_Out u = StakeableLockOut lt (TransferOutput amt owners) \<and> lt \<le> t)) \<and>
    match A owners t = (sigs, True)"
  then have pl: "unlocked_payload t (utxo_Out u) = Some (TransferOutput amt owners)"
    by (simp only: unlocked_payload_Some_iff)
  have run: "spend_unlocked A t co u s = Inr ?s'"
    using h pl by (intro spend_unlocked_consume) auto
  note f = consume_unlocked_fields [where co = co and u = u and amt = amt and sigs = sigs and s = s]
  note ar = apportion_arith
  have burn: "\<forall>a. unat (amount_of (amountsToBurn ?s') a) =
              unat (amount_of (amountsToBurn s) a) - (if a = ?a then unat ?burned else 0)"
    using ar(4) by (simp add: f(2) amount_of_sub)
  have stake: "\<forall>a. unat (amount_of (amountsToStake ?s') a) =
              unat (amount_of (amountsToStake s) a) - (if a = ?a then unat ?staked else 0)"
    using ar(5) by (simp add: f(3) amount_of_sub)
  have body: "spend_unlocked A t co u s = Inr ?s' \<and>
         unat ?burned = min (unat ?rb) (unat amt) \<and>
         unat ?staked = min (unat ?rs) (unat amt - unat ?burned) \<and>
         unat ?left = unat amt - unat ?burned - unat ?staked \<and>
         inputs ?s' = inputs s @
           [TransferableInput (utxo_UTXOID u) ?a (TransferInput amt sigs)] \<and>
         stakeOutputs ?s' = stakeOutputs s @
           (if ?staked = 0 then []
            else [TransferableOutput ?a (TransferOutput ?staked co)]) \<and>
         changeOutputs ?s' = changeOutputs s @
           (if ?left = 0 then []
            else [TransferableOutput ?a (TransferOutput ?left co)]) \<and>
         (\<forall>a. unat (amount_of (amountsToBurn ?s') a) =
              unat (amount_of (amountsToBurn s) a) - (if a = ?a then unat ?burned else 0)) \<and>
         (\<forall>a. unat (amount_of (amountsToStake ?s') a) =
              unat (amount_of (amountsToStake s) a) - (if a = ?a then unat ?staked else 0))"
  proof (intro conjI)
    show "spend_unlocked A t co u s = Inr ?s'" by (rule run)
    show "unat ?burned = min (unat ?rb) (unat amt)" by (rule ar(1))
    show "unat ?staked = min (unat ?rs) (unat amt - unat ?burned)" by (rule ar(2))
    show "unat ?left = unat amt - unat ?burned - unat ?staked" by (rule ar(3))
    show "inputs ?s' = inputs s @
           [TransferableInput (utxo_UTXOID u) ?a (TransferInput amt sigs)]" by (rule f(1))
    show "stakeOutputs ?s' = stakeOutputs s @
           (if ?staked = 0 then []
            else [TransferableOutput ?a (TransferOutput ?staked co)])" by (rule f(4))
    show "changeOutputs ?s' = changeOutputs s @
           (if ?left = 0 then []
            else [TransferableOutput ?a (TransferOutput ?left co)])" by (rule f(5))
    show "\<forall>a. unat (amount_of (amountsToBurn ?s') a) =
              unat (amount_of (amountsToBurn s) a) - (if a = ?a then unat ?burned else 0)"
      by (rule burn)
    show "\<forall>a. unat (amount_of (amountsToStake ?s') a) =
              unat (amount_of (amountsToStake s) a) - (if a = ?a then unat ?staked else 0)"
      by (rule stake)
  qed
  show "\<exists>(burned :: u64) (staked :: u64) (left :: u64) s'.
         spend_unlocked A t co u s = Inr s' \<and>
         unat burned = min (unat ?rb) (unat amt) \<and>
         unat staked = min (unat ?rs) (unat amt - unat burned) \<and>
         unat left = unat amt - unat burned - unat staked \<and>
         inputs s' = inputs s @
           [TransferableInput (utxo_UTXOID u) ?a (TransferInput amt sigs)] \<and>
         stakeOutputs s' = stakeOutputs s @
           (if staked = 0 then []
            else [TransferableOutput ?a (TransferOutput staked co)]) \<and>
         changeOutputs s' = changeOutputs s @
           (if left = 0 then []
            else [TransferableOutput ?a (TransferOutput left co)]) \<and>
         (\<forall>a. unat (amount_of (amountsToBurn s') a) =
              unat (amount_of (amountsToBurn s) a) - (if a = ?a then unat burned else 0)) \<and>
         (\<forall>a. unat (amount_of (amountsToStake s') a) =
              unat (amount_of (amountsToStake s) a) - (if a = ?a then unat staked else 0))"
    using body by blast
qed

lemma ex_match_two: "match {1} \<lparr>Locktime = 0, Threshold = 1, Addrs = [2, 1]\<rparr> 100 = ([1], True)"
  by code_simp

text \<open>
  The theorem at a UTXO of an asset nothing is asked of, and at a matured stake-locked
  UTXO of 20 units when 6 must be burned and 5 staked: 6 are burned, 5 staked, 9 returned.
\<close>

theorem unlocked_pass_apportions_witness:
  "spend_unlocked {1} 100 ex_owner (UTXO (1, 0) 7 (TransferOutput 20 ex_owner))
     (spend_init [] []) = Inr (spend_init [] []) \<and>
   (\<exists>(burned :: u64) (staked :: u64) (left :: u64) s'.
      spend_unlocked {1} 100 ex_owner
        (UTXO (1, 0) 7 (StakeableLockOut 50 (TransferOutput 20 \<lparr>Locktime = 0, Threshold = 1, Addrs = [2, 1]\<rparr>)))
        (spend_init [(7, 6)] [(7, 5)]) = Inr s' \<and>
      unat burned = 6 \<and> unat staked = 5 \<and> unat left = 9 \<and>
      inputs s' = [TransferableInput (1, 0) 7 (TransferInput 20 [1])] \<and>
      stakeOutputs s' = [TransferableOutput 7 (TransferOutput staked ex_owner)] \<and>
      changeOutputs s' = [TransferableOutput 7 (TransferOutput left ex_owner)] \<and>
      unat (amount_of (amountsToBurn s') 7) = 0 \<and>
      unat (amount_of (amountsToStake s') 7) = 0)"
proof -
  let ?plain = "UTXO (1, 0) 7 (TransferOutput 20 ex_owner)"
  let ?ow = "\<lparr>Locktime = 0, Threshold = 1, Addrs = [2, 1 :: nat]\<rparr>"
  let ?u = "UTXO (1, 0) 7 (StakeableLockOut 50 (TransferOutput 20 ?ow))"
  let ?s = "spend_init [(7, 6)] [(7, 5)]"
  note T = unlocked_pass_apportions [where A = "{1}" and t = 100 and co = ex_owner]
  have one: "spend_unlocked {1} 100 ex_owner ?plain (spend_init [] []) = Inr (spend_init [] [])"
    by (rule T [where s = "spend_init [] []" and u = ?plain, THEN conjunct1, rule_format])
      (simp add: spend_init_def amount_of_Nil)
  have pre: "(amount_of (amountsToBurn ?s) (utxo_Asset ?u) \<noteq> 0 \<or>
     amount_of (amountsToStake ?s) (utxo_Asset ?u) \<noteq> 0) \<and>
    (utxo_Out ?u = TransferOutput 20 ?ow \<or>
     (\<exists>lt. utxo_Out ?u = StakeableLockOut lt (TransferOutput 20 ?ow) \<and> lt \<le> 100)) \<and>
    match {1} ?ow 100 = ([1], True)"
    using ex_match_two by (simp add: spend_init_def amount_of_single)
  from T [where s = ?s and u = ?u and amt = 20 and owners = ?ow and sigs = "[1]",
      THEN conjunct2, rule_format, OF pre]
  obtain burned staked left :: u64 and s' where
    r: "spend_unlocked {1} 100 ex_owner ?u ?s = Inr s'" and
    b: "unat burned = 6" and st: "unat staked = 5" and l: "unat left = 9" and
    i: "inputs s' = [TransferableInput (1, 0) 7 (TransferInput 20 [1])]" and
    so: "stakeOutputs s' = (if staked = 0 then [] else [TransferableOutput 7 (TransferOutput staked ex_owner)])" and
    co: "changeOutputs s' = (if left = 0 then [] else [TransferableOutput 7 (TransferOutput left ex_owner)])" and
    rb: "unat (amount_of (amountsToBurn s') 7) = 0" and
    rs: "unat (amount_of (amountsToStake s') 7) = 0"
    by (auto simp: spend_init_def amount_of_single)
  from st have "staked \<noteq> 0" by auto
  moreover from l have "left \<noteq> 0" by auto
  ultimately have "spend_unlocked {1} 100 ex_owner ?u ?s = Inr s' \<and>
      unat burned = 6 \<and> unat staked = 5 \<and> unat left = 9 \<and>
      inputs s' = [TransferableInput (1, 0) 7 (TransferInput 20 [1])] \<and>
      stakeOutputs s' = [TransferableOutput 7 (TransferOutput staked ex_owner)] \<and>
      changeOutputs s' = [TransferableOutput 7 (TransferOutput left ex_owner)] \<and>
      unat (amount_of (amountsToBurn s') 7) = 0 \<and>
      unat (amount_of (amountsToStake s') 7) = 0"
    using r b st l i so co rb rs by simp
  then show ?thesis
    using one by blast
qed

section \<open>Owners and locks of the outputs\<close>

lemma consume_locked_fields:
  "inputs (consume_locked u lt amt owners sigs s) =
     inputs s @ [TransferableInput (utxo_UTXOID u) (utxo_Asset u)
                   (StakeableLockIn lt (TransferInput amt sigs))]"
  "amountsToBurn (consume_locked u lt amt owners sigs s) = amountsToBurn s"
  "amountsToStake (consume_locked u lt amt owners sigs s) =
     sub_amount (amountsToStake s) (utxo_Asset u)
       (Min64 (amount_of (amountsToStake s) (utxo_Asset u)) amt)"
  "stakeOutputs (consume_locked u lt amt owners sigs s) =
     stakeOutputs s @
       [TransferableOutput (utxo_Asset u)
          (StakeableLockOut lt
             (TransferOutput (Min64 (amount_of (amountsToStake s) (utxo_Asset u)) amt) owners))]"
  "changeOutputs (consume_locked u lt amt owners sigs s) =
     changeOutputs s @
       (if amt - Min64 (amount_of (amountsToStake s) (utxo_Asset u)) amt = 0 then []
        else [TransferableOutput (utxo_Asset u)
                (StakeableLockOut lt
                   (TransferOutput (amt - Min64 (amount_of (amountsToStake s) (utxo_Asset u)) amt)
                      owners))])"
  by (simp_all add: consume_locked_def Let_def word_gt_0)

lemma consume_unlocked_outputs:
  "\<exists>stk chg.
     stakeOutputs (consume_unlocked co u amt sigs s) = stakeOutputs s @ stk \<and>
     changeOutputs (consume_unlocked co u amt sigs s) = changeOutputs s @ chg \<and>
     (\<forall>out \<in> set (stk @ chg). \<exists>x. Out out = TransferOutput x co)"
  by (simp add: consume_unlocked_fields)

lemma spend_unlocked_outputs:
  assumes "spend_unlocked A t co u s = Inr s'"
  shows "\<exists>stk chg.
     stakeOutputs s' = stakeOutputs s @ stk \<and> changeOutputs s' = changeOutputs s @ chg \<and>
     (\<forall>out \<in> set (stk @ chg). \<exists>x. Out out = TransferOutput x co)"
proof -
  from spend_unlocked_cases [OF assms] consider
    "s' = s" | amt sigs where "s' = consume_unlocked co u amt sigs s"
    by blast
  then show ?thesis
  proof cases
    case 1
    then show ?thesis by simp
  next
    case 2
    then show ?thesis using consume_unlocked_outputs by simp
  qed
qed

lemma unlocked_pass_outputs:
  assumes "for_each (spend_unlocked A t co) utxos s = Inr s'"
  shows "\<exists>stk chg.
     stakeOutputs s' = stakeOutputs s @ stk \<and> changeOutputs s' = changeOutputs s @ chg \<and>
     (\<forall>out \<in> set (stk @ chg). \<exists>x. Out out = TransferOutput x co)"
  using assms
proof (induction utxos arbitrary: s)
  case Nil
  then show ?case by simp
next
  case (Cons u us)
  from Cons.prems obtain s1 where
    st: "spend_unlocked A t co u s = Inr s1" and
    re: "for_each (spend_unlocked A t co) us s1 = Inr s'"
    by (auto split: sum.splits)
  from spend_unlocked_outputs [OF st] obtain stk1 chg1 where
    a: "stakeOutputs s1 = stakeOutputs s @ stk1" "changeOutputs s1 = changeOutputs s @ chg1"
       "\<forall>out \<in> set (stk1 @ chg1). \<exists>x. Out out = TransferOutput x co"
    by blast
  from Cons.IH [OF re] obtain stk2 chg2 where
    b: "stakeOutputs s' = stakeOutputs s1 @ stk2" "changeOutputs s' = changeOutputs s1 @ chg2"
       "\<forall>out \<in> set (stk2 @ chg2). \<exists>x. Out out = TransferOutput x co"
    by blast
  have "stakeOutputs s' = stakeOutputs s @ (stk1 @ stk2) \<and>
        changeOutputs s' = changeOutputs s @ (chg1 @ chg2) \<and>
        (\<forall>out \<in> set ((stk1 @ stk2) @ (chg1 @ chg2)). \<exists>x. Out out = TransferOutput x co)"
    using a b by auto
  then show ?case by blast
qed

lemma resolve_changeOwner_cases:
  "resolve_changeOwner ops addr =
     (case changeOwner ops of
        None \<Rightarrow> \<lparr>Locktime = 0, Threshold = 1, Addrs = [addr]\<rparr>
      | Some owner \<Rightarrow> owner)"
  by (simp add: resolve_changeOwner_def ChangeOwner_def)

lemma outputs_kind_locked:
  assumes "\<forall>out \<in> set (changeOutputs s @ stakeOutputs s).
             (\<exists>x. Out out = TransferOutput x co) \<or>
             (\<exists>lt x ow. Out out = StakeableLockOut lt (TransferOutput x ow) \<and> t < lt)"
    and "spend_locked A t u s = Inr s'"
  shows "\<forall>out \<in> set (changeOutputs s' @ stakeOutputs s').
             (\<exists>x. Out out = TransferOutput x co) \<or>
             (\<exists>lt x ow. Out out = StakeableLockOut lt (TransferOutput x ow) \<and> t < lt)"
proof -
  from spend_locked_cases [OF assms(2)] consider
    "s' = s" | lt amt owners sigs where "t < lt" "s' = consume_locked u lt amt owners sigs s"
    by blast
  then show ?thesis
  proof cases
    case 1
    then show ?thesis using assms(1) by simp
  next
    case 2
    then show ?thesis using assms(1) by (auto simp: consume_locked_fields)
  qed
qed

lemma outputs_kind_unlocked:
  assumes "\<forall>out \<in> set (changeOutputs s @ stakeOutputs s).
             (\<exists>x. Out out = TransferOutput x co) \<or>
             (\<exists>lt x ow. Out out = StakeableLockOut lt (TransferOutput x ow) \<and> t < lt)"
    and "spend_unlocked A t co u s = Inr s'"
  shows "\<forall>out \<in> set (changeOutputs s' @ stakeOutputs s').
             (\<exists>x. Out out = TransferOutput x co) \<or>
             (\<exists>lt x ow. Out out = StakeableLockOut lt (TransferOutput x ow) \<and> t < lt)"
proof -
  from spend_unlocked_outputs [OF assms(2)] obtain stk chg where
    "stakeOutputs s' = stakeOutputs s @ stk" "changeOutputs s' = changeOutputs s @ chg"
    "\<forall>out \<in> set (stk @ chg). \<exists>x. Out out = TransferOutput x co"
    by blast
  then show ?thesis using assms(1) by auto
qed

lemma set_Sort_outputs: "set (SortTransferableOutputs xs c) = set xs"
  by (simp add: SortTransferableOutputs_def)

lemma spend_outputs_kind:
  assumes "spend rt b toBurn toStake ops = Inr (ins, chg, stk)"
  shows "\<exists>addr. Peek rt (addrs b) = Some addr \<and>
     (\<forall>out \<in> set (chg @ stk).
        (\<exists>x. Out out = TransferOutput x (resolve_changeOwner ops addr)) \<or>
        (\<exists>lt x ow. Out out = StakeableLockOut lt (TransferOutput x ow) \<and>
           MinIssuanceTime ops < lt))"
proof -
  from spend_Inr [OF assms] obtain utxos addr s where
    pk: "Peek rt (addrs b) = Some addr" and
    sc: "spend_scan (addrs b) (MinIssuanceTime ops) (resolve_changeOwner ops addr) utxos
       (spend_init toBurn toStake) = Inr s" and
    fin: "spend_finish rt s = Inr (ins, chg, stk)"
    by blast
  let ?t = "MinIssuanceTime ops" and ?co = "resolve_changeOwner ops addr"
  let ?P = "\<lambda>s. \<forall>out \<in> set (changeOutputs s @ stakeOutputs s).
             (\<exists>x. Out out = TransferOutput x ?co) \<or>
             (\<exists>lt x ow. Out out = StakeableLockOut lt (TransferOutput x ow) \<and> ?t < lt)"
  from sc obtain s1 where
    p1: "for_each (spend_locked (addrs b) ?t) utxos (spend_init toBurn toStake) = Inr s1" and
    p2: "for_each (spend_unlocked (addrs b) ?t ?co) utxos s1 = Inr s"
    by (auto simp: spend_scan_def split: sum.splits)
  have "?P (spend_init toBurn toStake)"
    by (simp add: spend_init_def)
  then have "?P s1"
    using for_each_inv [of ?P "spend_locked (addrs b) ?t", OF _ _ p1] outputs_kind_locked
    by blast
  then have "?P s"
    using for_each_inv [of ?P "spend_unlocked (addrs b) ?t ?co", OF _ _ p2] outputs_kind_unlocked
    by blast
  then have "\<forall>out \<in> set (chg @ stk).
        (\<exists>x. Out out = TransferOutput x ?co) \<or>
        (\<exists>lt x ow. Out out = StakeableLockOut lt (TransferOutput x ow) \<and> ?t < lt)"
    using spend_finish_Inr [OF fin] by (simp add: set_Sort_outputs)
  then show ?thesis using pk by blast
qed

text \<open>
  Claim C10. Every stake output and every change output the second pass produces, for
  one UTXO and for the whole pass, is a plain transfer output owned by the change owner
  it was given. The change owner \<open>spend\<close> resolves is the override of the options when
  there is one, and otherwise the threshold-1 owner over the one address \<open>Peek\<close> picked.
  In the result of \<open>spend\<close> every output is either such a plain output owned by the
  resolved change owner, or a stake-locked output of the first pass whose lock is still
  active.
\<close>

theorem unlocked_pass_outputs_to_change_owner:
  "(spend_unlocked A t co u s = Inr s' \<longrightarrow>
      (\<exists>stk chg.
         stakeOutputs s' = stakeOutputs s @ stk \<and> changeOutputs s' = changeOutputs s @ chg \<and>
         (\<forall>out \<in> set (stk @ chg). \<exists>x. Out out = TransferOutput x co))) \<and>
   (for_each (spend_unlocked A t co) utxos s = Inr s' \<longrightarrow>
      (\<exists>stk chg.
         stakeOutputs s' = stakeOutputs s @ stk \<and> changeOutputs s' = changeOutputs s @ chg \<and>
         (\<forall>out \<in> set (stk @ chg). \<exists>x. Out out = TransferOutput x co))) \<and>
   resolve_changeOwner ops addr =
     (case changeOwner ops of
        None \<Rightarrow> \<lparr>Locktime = 0, Threshold = 1, Addrs = [addr]\<rparr>
      | Some owner \<Rightarrow> owner) \<and>
   (spend rt b toBurn toStake ops = Inr (ins, chg, stk) \<longrightarrow>
      (\<exists>addr. Peek rt (addrs b) = Some addr \<and>
         (\<forall>out \<in> set (chg @ stk).
            (\<exists>x. Out out = TransferOutput x (resolve_changeOwner ops addr)) \<or>
            (\<exists>lt x ow. Out out = StakeableLockOut lt (TransferOutput x ow) \<and>
               MinIssuanceTime ops < lt))))"
  using spend_unlocked_outputs [of A t co u s s'] unlocked_pass_outputs [of A t co utxos s s']
    resolve_changeOwner_cases [of ops addr] spend_outputs_kind [of rt b toBurn toStake ops ins chg stk]
  by (intro conjI impI) assumption+

lemma spend_locked_not_locked:
  assumes "\<forall>lt tout. utxo_Out u = StakeableLockOut lt tout \<longrightarrow> lt \<le> t"
  shows "spend_locked A t u s = Inr s"
  using assms by (cases "utxo_Out u") (auto simp: spend_locked_def Let_def)

lemma spend_unlocked_still_locked:
  assumes "utxo_Out u = StakeableLockOut lt tout" and "t < lt"
  shows "spend_unlocked A t co u s = Inr s"
  using assms by (simp add: spend_unlocked_def unlocked_payload_def Let_def)

lemma spend_locked_outputs:
  assumes "utxo_Out u = StakeableLockOut lt (TransferOutput amt owners)"
    and "spend_locked A t u s = Inr s'"
  shows "\<exists>ins stk chg.
     inputs s' = inputs s @ ins \<and> stakeOutputs s' = stakeOutputs s @ stk \<and>
     changeOutputs s' = changeOutputs s @ chg \<and>
     (\<forall>i \<in> set ins. \<exists>sigs. In i = StakeableLockIn lt (TransferInput amt sigs)) \<and>
     (\<forall>out \<in> set (stk @ chg). \<exists>x. Out out = StakeableLockOut lt (TransferOutput x owners))"
proof -
  from spend_locked_cases [OF assms(2)] assms(1) consider
    "s' = s" | sigs where "s' = consume_locked u lt amt owners sigs s"
    by auto
  then show ?thesis
  proof cases
    case 1
    then have "inputs s' = inputs s @ [] \<and> stakeOutputs s' = stakeOutputs s @ [] \<and>
     changeOutputs s' = changeOutputs s @ [] \<and>
     (\<forall>i \<in> set []. \<exists>sigs. In i = StakeableLockIn lt (TransferInput amt sigs)) \<and>
     (\<forall>out \<in> set ([] @ []). \<exists>x. Out out = StakeableLockOut lt (TransferOutput x owners))"
      by simp
    then show ?thesis by blast
  next
    case 2
    show ?thesis
      unfolding 2 consume_locked_fields by (intro exI conjI) (rule refl, rule refl, rule refl, auto)
  qed
qed

lemma spend_unlocked_plain:
  assumes "spend_unlocked A t co u s = Inr s'"
  shows "\<exists>ins stk chg.
     inputs s' = inputs s @ ins \<and> stakeOutputs s' = stakeOutputs s @ stk \<and>
     changeOutputs s' = changeOutputs s @ chg \<and>
     (\<forall>i \<in> set ins. \<exists>amt sigs. In i = TransferInput amt sigs) \<and>
     (\<forall>out \<in> set (stk @ chg). \<exists>x. Out out = TransferOutput x co)"
proof -
  from spend_unlocked_cases [OF assms] consider
    "s' = s" | amt sigs where "s' = consume_unlocked co u amt sigs s"
    by blast
  then show ?thesis
  proof cases
    case 1
    then have "inputs s' = inputs s @ [] \<and> stakeOutputs s' = stakeOutputs s @ [] \<and>
     changeOutputs s' = changeOutputs s @ [] \<and>
     (\<forall>i \<in> set []. \<exists>amt sigs. In i = TransferInput amt sigs) \<and>
     (\<forall>out \<in> set ([] @ []). \<exists>x. Out out = TransferOutput x co)"
      by simp
    then show ?thesis by blast
  next
    case 2
    show ?thesis
      unfolding 2 consume_unlocked_fields by (intro exI conjI) (rule refl, rule refl, rule refl, auto)
  qed
qed

text \<open>
  Claim C4. A UTXO under a stake lock that is still active (\<open>t < lt\<close>) is only consumed
  by the first pass: its input is a \<^verbatim>\<open>StakeableLockIn\<close> with the same lock time and the whole
  amount, and every output made from it, stake or change, is a \<^verbatim>\<open>StakeableLockOut\<close> with
  the same lock time and the UTXO's own owners; the second pass skips it. A UTXO that is
  plain, or whose stake lock has matured (\<open>lt \<le> t\<close>), is never consumed by the first
  pass, and what the second pass makes from it are a plain input and plain transfer
  outputs, with no lock.
\<close>

theorem lock_preservation:
  "(utxo_Out u = StakeableLockOut lt (TransferOutput amt owners) \<and> t < lt \<and>
    spend_locked A t u s = Inr s' \<longrightarrow>
      (\<exists>ins stk chg.
         inputs s' = inputs s @ ins \<and> stakeOutputs s' = stakeOutputs s @ stk \<and>
         changeOutputs s' = changeOutputs s @ chg \<and>
         (\<forall>i \<in> set ins. \<exists>sigs. In i = StakeableLockIn lt (TransferInput amt sigs)) \<and>
         (\<forall>out \<in> set (stk @ chg).
            \<exists>x. Out out = StakeableLockOut lt (TransferOutput x owners)))) \<and>
   (utxo_Out u = StakeableLockOut lt tout \<and> t < lt \<longrightarrow>
      spend_unlocked A t co u s = Inr s) \<and>
   ((\<forall>l inner. utxo_Out u = StakeableLockOut l inner \<longrightarrow> l \<le> t) \<longrightarrow>
      spend_locked A t u s = Inr s) \<and>
   ((\<forall>l inner. utxo_Out u = StakeableLockOut l inner \<longrightarrow> l \<le> t) \<and>
    spend_unlocked A t co u s = Inr s' \<longrightarrow>
      (\<exists>ins stk chg.
         inputs s' = inputs s @ ins \<and> stakeOutputs s' = stakeOutputs s @ stk \<and>
         changeOutputs s' = changeOutputs s @ chg \<and>
         (\<forall>i \<in> set ins. \<exists>x sigs. In i = TransferInput x sigs) \<and>
         (\<forall>out \<in> set (stk @ chg). \<exists>x. Out out = TransferOutput x co)))"
proof (intro conjI impI)
  assume "utxo_Out u = StakeableLockOut lt (TransferOutput amt owners) \<and> t < lt \<and>
    spend_locked A t u s = Inr s'"
  then show "\<exists>ins stk chg.
         inputs s' = inputs s @ ins \<and> stakeOutputs s' = stakeOutputs s @ stk \<and>
         changeOutputs s' = changeOutputs s @ chg \<and>
         (\<forall>i \<in> set ins. \<exists>sigs. In i = StakeableLockIn lt (TransferInput amt sigs)) \<and>
         (\<forall>out \<in> set (stk @ chg).
            \<exists>x. Out out = StakeableLockOut lt (TransferOutput x owners))"
    using spend_locked_outputs by blast
next
  assume "utxo_Out u = StakeableLockOut lt tout \<and> t < lt"
  then show "spend_unlocked A t co u s = Inr s"
    using spend_unlocked_still_locked by blast
next
  assume "\<forall>l inner. utxo_Out u = StakeableLockOut l inner \<longrightarrow> l \<le> t"
  then show "spend_locked A t u s = Inr s"
    by (rule spend_locked_not_locked)
next
  assume "(\<forall>l inner. utxo_Out u = StakeableLockOut l inner \<longrightarrow> l \<le> t) \<and>
    spend_unlocked A t co u s = Inr s'"
  then show "\<exists>ins stk chg.
         inputs s' = inputs s @ ins \<and> stakeOutputs s' = stakeOutputs s @ stk \<and>
         changeOutputs s' = changeOutputs s @ chg \<and>
         (\<forall>i \<in> set ins. \<exists>x sigs. In i = TransferInput x sigs) \<and>
         (\<forall>out \<in> set (stk @ chg). \<exists>x. Out out = TransferOutput x co)"
    using spend_unlocked_plain by blast
qed

section \<open>The two passes on the locked examples\<close>

lemma ex_locked_step:
  "spend_locked {1} 100 ex_locked (spend_init [] [(7, 5)]) =
     Inr \<lparr>inputs = [TransferableInput (1, 0) 7 (StakeableLockIn 200 (TransferInput 20 [1]))],
          changeOutputs = [TransferableOutput 7 (StakeableLockOut 200 (TransferOutput 15 ex_owner2))],
          stakeOutputs = [TransferableOutput 7 (StakeableLockOut 200 (TransferOutput 5 ex_owner2))],
          amountsToBurn = [], amountsToStake = [(7, 0)]\<rparr>"
  by code_simp

lemma ex_matured_step:
  "spend_unlocked {1} 100 ex_owner ex_matured (spend_init [(7, 6)] [(7, 5)]) =
     Inr \<lparr>inputs = [TransferableInput (1, 1) 7 (TransferInput 20 [1])],
          changeOutputs = [TransferableOutput 7 (TransferOutput 9 ex_owner)],
          stakeOutputs = [TransferableOutput 7 (TransferOutput 5 ex_owner)],
          amountsToBurn = [(7, 0)], amountsToStake = [(7, 0)]\<rparr>"
  by code_simp

lemma ex_matured_pass:
  "for_each (spend_unlocked {1} 100 ex_owner) [ex_matured] (spend_init [(7, 6)] [(7, 5)]) =
     Inr \<lparr>inputs = [TransferableInput (1, 1) 7 (TransferInput 20 [1])],
          changeOutputs = [TransferableOutput 7 (TransferOutput 9 ex_owner)],
          stakeOutputs = [TransferableOutput 7 (TransferOutput 5 ex_owner)],
          amountsToBurn = [(7, 0)], amountsToStake = [(7, 0)]\<rparr>"
  by code_simp

lemma ex_spend_both:
  "spend ex_rt (ex_builder [ex_locked, ex_matured] []) [(7, 6)] [(7, 10)] ex_options =
     Inr ([TransferableInput (1, 0) 7 (StakeableLockIn 200 (TransferInput 20 [1])),
           TransferableInput (1, 1) 7 (TransferInput 20 [1])],
          [TransferableOutput 7 (StakeableLockOut 200 (TransferOutput 10 ex_owner2)),
           TransferableOutput 7 (TransferOutput 14 ex_owner)],
          [TransferableOutput 7 (StakeableLockOut 200 (TransferOutput 10 ex_owner2))])"
  by code_simp

text \<open>
  The theorem at a matured UTXO owned by two addresses: its stake and change outputs
  are owned by the wallet's own address, not by the two owners; and at a call of
  \<open>spend\<close> over a locked and a matured UTXO.
\<close>

theorem unlocked_pass_outputs_to_change_owner_witness:
  "spend_unlocked {1} 100 ex_owner ex_matured (spend_init [(7, 6)] [(7, 5)]) =
     Inr \<lparr>inputs = [TransferableInput (1, 1) 7 (TransferInput 20 [1])],
          changeOutputs = [TransferableOutput 7 (TransferOutput 9 ex_owner)],
          stakeOutputs = [TransferableOutput 7 (TransferOutput 5 ex_owner)],
          amountsToBurn = [(7, 0)], amountsToStake = [(7, 0)]\<rparr> \<and>
   (\<exists>stk chg.
      [TransferableOutput 7 (TransferOutput 5 ex_owner)] = [] @ stk \<and>
      [TransferableOutput 7 (TransferOutput 9 ex_owner)] = [] @ chg \<and>
      (\<forall>out \<in> set (stk @ chg). \<exists>x. Out out = TransferOutput x ex_owner)) \<and>
   for_each (spend_unlocked {1} 100 ex_owner) [ex_matured] (spend_init [(7, 6)] [(7, 5)]) =
     Inr \<lparr>inputs = [TransferableInput (1, 1) 7 (TransferInput 20 [1])],
          changeOutputs = [TransferableOutput 7 (TransferOutput 9 ex_owner)],
          stakeOutputs = [TransferableOutput 7 (TransferOutput 5 ex_owner)],
          amountsToBurn = [(7, 0)], amountsToStake = [(7, 0)]\<rparr> \<and>
   resolve_changeOwner ex_options 1 = \<lparr>Locktime = 0, Threshold = 1, Addrs = [1]\<rparr> \<and>
   ex_owner2 \<noteq> resolve_changeOwner ex_options 1 \<and>
   spend ex_rt (ex_builder [ex_locked, ex_matured] []) [(7, 6)] [(7, 10)] ex_options =
     Inr ([TransferableInput (1, 0) 7 (StakeableLockIn 200 (TransferInput 20 [1])),
           TransferableInput (1, 1) 7 (TransferInput 20 [1])],
          [TransferableOutput 7 (StakeableLockOut 200 (TransferOutput 10 ex_owner2)),
           TransferableOutput 7 (TransferOutput 14 ex_owner)],
          [TransferableOutput 7 (StakeableLockOut 200 (TransferOutput 10 ex_owner2))]) \<and>
   (\<exists>addr. Peek ex_rt (addrs (ex_builder [ex_locked, ex_matured] [])) = Some addr \<and>
      (\<forall>out \<in> set ([TransferableOutput 7 (StakeableLockOut 200 (TransferOutput 10 ex_owner2)),
                      TransferableOutput 7 (TransferOutput 14 ex_owner)] @
                     [TransferableOutput 7 (StakeableLockOut 200 (TransferOutput 10 ex_owner2))]).
         (\<exists>x. Out out = TransferOutput x (resolve_changeOwner ex_options addr)) \<or>
         (\<exists>lt x ow. Out out = StakeableLockOut lt (TransferOutput x ow) \<and>
            MinIssuanceTime ex_options < lt)))"
proof -
  note T = unlocked_pass_outputs_to_change_owner
  have a: "\<exists>stk chg.
      [TransferableOutput 7 (TransferOutput 5 ex_owner)] = [] @ stk \<and>
      [TransferableOutput 7 (TransferOutput 9 ex_owner)] = [] @ chg \<and>
      (\<forall>out \<in> set (stk @ chg). \<exists>x. Out out = TransferOutput x ex_owner)"
    using T [THEN conjunct1, rule_format, OF ex_matured_step]
    by (simp add: spend_init_def)
  have r: "resolve_changeOwner ex_options 1 = \<lparr>Locktime = 0, Threshold = 1, Addrs = [1]\<rparr>"
    using T [where ops = ex_options and addr = 1, THEN conjunct2, THEN conjunct2, THEN conjunct1]
    by (simp add: ex_options_def)
  have n: "ex_owner2 \<noteq> resolve_changeOwner ex_options 1"
    unfolding r by (simp add: ex_owner2_def)
  note d = T [THEN conjunct2, THEN conjunct2, THEN conjunct2, rule_format, OF ex_spend_both]
  show ?thesis
    using ex_matured_step a ex_matured_pass r n ex_spend_both d by blast
qed

text \<open>
  The theorem at the UTXO locked until 200 and at the one locked until 50, with the
  issuance time 100.
\<close>

theorem lock_preservation_witness:
  "spend_locked {1} 100 ex_locked (spend_init [] [(7, 5)]) =
     Inr \<lparr>inputs = [TransferableInput (1, 0) 7 (StakeableLockIn 200 (TransferInput 20 [1]))],
          changeOutputs = [TransferableOutput 7 (StakeableLockOut 200 (TransferOutput 15 ex_owner2))],
          stakeOutputs = [TransferableOutput 7 (StakeableLockOut 200 (TransferOutput 5 ex_owner2))],
          amountsToBurn = [], amountsToStake = [(7, 0)]\<rparr> \<and>
   (\<exists>ins stk chg.
      [TransferableInput (1, 0) 7 (StakeableLockIn 200 (TransferInput 20 [1]))] = [] @ ins \<and>
      [TransferableOutput 7 (StakeableLockOut 200 (TransferOutput 5 ex_owner2))] = [] @ stk \<and>
      [TransferableOutput 7 (StakeableLockOut 200 (TransferOutput 15 ex_owner2))] = [] @ chg \<and>
      (\<forall>i \<in> set ins. \<exists>sigs. In i = StakeableLockIn 200 (TransferInput 20 sigs)) \<and>
      (\<forall>out \<in> set (stk @ chg).
         \<exists>x. Out out = StakeableLockOut 200 (TransferOutput x ex_owner2))) \<and>
   spend_unlocked {1} 100 ex_owner ex_locked (spend_init [(7, 6)] [(7, 5)]) =
     Inr (spend_init [(7, 6)] [(7, 5)]) \<and>
   spend_locked {1} 100 ex_matured (spend_init [(7, 6)] [(7, 5)]) =
     Inr (spend_init [(7, 6)] [(7, 5)]) \<and>
   spend_unlocked {1} 100 ex_owner ex_matured (spend_init [(7, 6)] [(7, 5)]) =
     Inr \<lparr>inputs = [TransferableInput (1, 1) 7 (TransferInput 20 [1])],
          changeOutputs = [TransferableOutput 7 (TransferOutput 9 ex_owner)],
          stakeOutputs = [TransferableOutput 7 (TransferOutput 5 ex_owner)],
          amountsToBurn = [(7, 0)], amountsToStake = [(7, 0)]\<rparr> \<and>
   (\<exists>ins stk chg.
      [TransferableInput (1, 1) 7 (TransferInput 20 [1])] = [] @ ins \<and>
      [TransferableOutput 7 (TransferOutput 5 ex_owner)] = [] @ stk \<and>
      [TransferableOutput 7 (TransferOutput 9 ex_owner)] = [] @ chg \<and>
      (\<forall>i \<in> set ins. \<exists>x sigs. In i = TransferInput x sigs) \<and>
      (\<forall>out \<in> set (stk @ chg). \<exists>x. Out out = TransferOutput x ex_owner))"
proof -
  note T = lock_preservation [where A = "{1}" and t = 100 and co = ex_owner]
  have lo: "utxo_Out ex_locked = StakeableLockOut 200 (TransferOutput 20 ex_owner2)"
    by (simp add: ex_locked_def)
  have act: "(100 :: u64) < 200" by simp
  have mat: "\<forall>l inner. utxo_Out ex_matured = StakeableLockOut l inner \<longrightarrow> l \<le> 100"
    by (simp add: ex_matured_def)
  have a: "\<exists>ins stk chg.
      [TransferableInput (1, 0) 7 (StakeableLockIn 200 (TransferInput 20 [1]))] = [] @ ins \<and>
      [TransferableOutput 7 (StakeableLockOut 200 (TransferOutput 5 ex_owner2))] = [] @ stk \<and>
      [TransferableOutput 7 (StakeableLockOut 200 (TransferOutput 15 ex_owner2))] = [] @ chg \<and>
      (\<forall>i \<in> set ins. \<exists>sigs. In i = StakeableLockIn 200 (TransferInput 20 sigs)) \<and>
      (\<forall>out \<in> set (stk @ chg).
         \<exists>x. Out out = StakeableLockOut 200 (TransferOutput x ex_owner2))"
    using T [THEN conjunct1, rule_format, OF conjI [OF lo conjI [OF act ex_locked_step]]]
    by (simp add: spend_init_def)
  have b: "spend_unlocked {1} 100 ex_owner ex_locked (spend_init [(7, 6)] [(7, 5)]) =
     Inr (spend_init [(7, 6)] [(7, 5)])"
    by (rule T [THEN conjunct2, THEN conjunct1, rule_format, OF conjI [OF lo act]])
  have c: "spend_locked {1} 100 ex_matured (spend_init [(7, 6)] [(7, 5)]) =
     Inr (spend_init [(7, 6)] [(7, 5)])"
    by (rule T [THEN conjunct2, THEN conjunct2, THEN conjunct1, THEN mp, OF mat])
  have d: "\<exists>ins stk chg.
      [TransferableInput (1, 1) 7 (TransferInput 20 [1])] = [] @ ins \<and>
      [TransferableOutput 7 (TransferOutput 5 ex_owner)] = [] @ stk \<and>
      [TransferableOutput 7 (TransferOutput 9 ex_owner)] = [] @ chg \<and>
      (\<forall>i \<in> set ins. \<exists>x sigs. In i = TransferInput x sigs) \<and>
      (\<forall>out \<in> set (stk @ chg). \<exists>x. Out out = TransferOutput x ex_owner)"
    using T [THEN conjunct2, THEN conjunct2, THEN conjunct2, rule_format,
        OF conjI [OF mat ex_matured_step]]
    by (simp add: spend_init_def)
  show ?thesis
    using ex_locked_step a b c ex_matured_step d by blast
qed

section \<open>Unknown output types\<close>

lemma spend_locked_Inl_iff:
  "spend_locked A t u s = Inl e \<longleftrightarrow>
     e = errUnknownOutputType \<and> amount_of (amountsToStake s) (utxo_Asset u) \<noteq> 0 \<and>
     (\<exists>lt tout. utxo_Out u = StakeableLockOut lt tout \<and> t < lt \<and>
        (\<forall>amt owners. tout \<noteq> TransferOutput amt owners))"
proof (cases "utxo_Out u")
  case (TransferOutput amt owners)
  then show ?thesis by (simp add: spend_locked_def Let_def)
next
  case (OtherOutput x)
  then show ?thesis by (simp add: spend_locked_def Let_def)
next
  case (StakeableLockOut lt tout)
  then show ?thesis
    by (cases tout)
      (auto simp: spend_locked_def Let_def not_le split: prod.splits)
qed

lemma spend_unlocked_Inl_iff:
  "spend_unlocked A t co u s = Inl e \<longleftrightarrow>
     e = errUnknownOutputType \<and>
     (amount_of (amountsToStake s) (utxo_Asset u) \<noteq> 0 \<or>
      amount_of (amountsToBurn s) (utxo_Asset u) \<noteq> 0) \<and>
     ((\<exists>x. utxo_Out u = OtherOutput x) \<or>
      (\<exists>lt tout. utxo_Out u = StakeableLockOut lt tout \<and> lt \<le> t \<and>
         (\<forall>amt owners. tout \<noteq> TransferOutput amt owners)))"
proof (cases "utxo_Out u")
  case (TransferOutput amt owners)
  then show ?thesis
    by (auto simp: spend_unlocked_def unlocked_payload_def Let_def split: prod.splits)
next
  case (OtherOutput x)
  then show ?thesis
    by (auto simp: spend_unlocked_def unlocked_payload_def Let_def)
next
  case (StakeableLockOut lt tout)
  then show ?thesis
    by (cases tout)
      (auto simp: spend_unlocked_def unlocked_payload_def Let_def not_less split: prod.splits)
qed

lemma for_each_stops:
  assumes "for_each body pre s = Inr s1" and "body u s1 = Inl e"
  shows "for_each body (pre @ u # post) s = Inl e"
  using assms by (simp add: for_each_append)

lemma spend_scan_Inl_iff:
  "spend_scan A t co utxos s = Inl e \<longleftrightarrow>
     for_each (spend_locked A t) utxos s = Inl e \<or>
     (\<exists>s1. for_each (spend_locked A t) utxos s = Inr s1 \<and>
        for_each (spend_unlocked A t co) utxos s1 = Inl e)"
  by (auto simp: spend_scan_def split: sum.splits)

lemma spend_scan_fails:
  assumes "UTXOs (backend b) PlatformChainID = Inr utxos" and "Peek rt (addrs b) = Some addr"
    and "spend_scan (addrs b) (MinIssuanceTime ops) (resolve_changeOwner ops addr) utxos
           (spend_init toBurn toStake) = Inl e"
  shows "spend rt b toBurn toStake ops = Inl e"
  using assms by (simp add: spend_def Let_def)

text \<open>
  Claim C9, as amended. A pass fails on a UTXO, and then only with the unknown output
  type error, exactly when it reaches its type check on a payload that is not a transfer
  output: in the first pass when the asset still needs staking and the payload is a
  stake lock still active around something else than a transfer output; in the second
  pass when the asset still needs staking or burning and the payload is neither a
  transfer output nor a stake lock, or is a matured stake lock around something else
  than a transfer output. When a pass fails on a UTXO the pass fails, whatever UTXOs
  follow; the scan fails when either pass does, and \<open>spend\<close> fails with the error of
  the scan.
\<close>

theorem unknown_output_type_reported:
  "(spend_locked A t u s = Inl e \<longleftrightarrow>
      e = errUnknownOutputType \<and> amount_of (amountsToStake s) (utxo_Asset u) \<noteq> 0 \<and>
      (\<exists>lt tout. utxo_Out u = StakeableLockOut lt tout \<and> t < lt \<and>
         (\<forall>amt owners. tout \<noteq> TransferOutput amt owners))) \<and>
   (spend_unlocked A t co u s = Inl e \<longleftrightarrow>
      e = errUnknownOutputType \<and>
      (amount_of (amountsToStake s) (utxo_Asset u) \<noteq> 0 \<or>
       amount_of (amountsToBurn s) (utxo_Asset u) \<noteq> 0) \<and>
      ((\<exists>x. utxo_Out u = OtherOutput x) \<or>
       (\<exists>lt tout. utxo_Out u = StakeableLockOut lt tout \<and> lt \<le> t \<and>
          (\<forall>amt owners. tout \<noteq> TransferOutput amt owners)))) \<and>
   (for_each (spend_locked A t) pre s = Inr s1 \<and> spend_locked A t u s1 = Inl e \<longrightarrow>
      for_each (spend_locked A t) (pre @ u # post) s = Inl e) \<and>
   (for_each (spend_unlocked A t co) pre s = Inr s1 \<and> spend_unlocked A t co u s1 = Inl e \<longrightarrow>
      for_each (spend_unlocked A t co) (pre @ u # post) s = Inl e) \<and>
   (spend_scan A t co utxos s = Inl e \<longleftrightarrow>
      for_each (spend_locked A t) utxos s = Inl e \<or>
      (\<exists>s1. for_each (spend_locked A t) utxos s = Inr s1 \<and>
         for_each (spend_unlocked A t co) utxos s1 = Inl e)) \<and>
   (UTXOs (backend b) PlatformChainID = Inr utxos \<and> Peek rt (addrs b) = Some addr \<and>
    spend_scan (addrs b) (MinIssuanceTime ops) (resolve_changeOwner ops addr) utxos
      (spend_init toBurn toStake) = Inl e \<longrightarrow>
      spend rt b toBurn toStake ops = Inl e)"
  using spend_locked_Inl_iff [of A t u s e] spend_unlocked_Inl_iff [of A t co u s e]
    for_each_stops [of "spend_locked A t" pre s s1 u e post]
    for_each_stops [of "spend_unlocked A t co" pre s s1 u e post]
    spend_scan_Inl_iff [of A t co utxos s e]
    spend_scan_fails [of b utxos rt addr ops toBurn toStake e]
  by blast

lemma ex_options_sel:
  "MinIssuanceTime ex_options = 100"
  "resolve_changeOwner ex_options 1 = ex_owner"
  by (simp_all add: MinIssuanceTime_def resolve_changeOwner_def ChangeOwner_def ex_options_def
      ex_owner_def)

lemma ex_Peek:
  "Peek ex_rt (addrs (ex_builder l f)) = Some 1"
  "Peek ex_rt {1} = Some 1"
  by (simp_all add: ex_rt_def ex_runtime_def ex_builder_def)

lemma ex_local: "UTXOs (backend (ex_builder l f)) PlatformChainID = Inr l"
  by (simp add: ex_builder_def ex_backend_def)

text \<open>
  Claim C9 as stated fails. The platform chain holds a UTXO of an unknown payload whose
  asset nothing is asked of, and a UTXO of the native asset, of which 6 units must be
  burned, that is an active stake lock around an unknown payload; \<open>spend\<close> skips both
  and succeeds with the third UTXO.
\<close>

theorem unknown_output_skipped_counterexample:
  "UTXOs (backend (ex_builder
       [UTXO (1, 0) 8 (OtherOutput 5),
        UTXO (1, 1) 7 (StakeableLockOut 200 (OtherOutput 5)),
        UTXO (1, 2) 7 (TransferOutput 20 ex_owner)] [])) PlatformChainID =
     Inr [UTXO (1, 0) 8 (OtherOutput 5),
          UTXO (1, 1) 7 (StakeableLockOut 200 (OtherOutput 5)),
          UTXO (1, 2) 7 (TransferOutput 20 ex_owner)] \<and>
   spend ex_rt
     (ex_builder
       [UTXO (1, 0) 8 (OtherOutput 5),
        UTXO (1, 1) 7 (StakeableLockOut 200 (OtherOutput 5)),
        UTXO (1, 2) 7 (TransferOutput 20 ex_owner)] [])
     [(7, 6)] [] ex_options =
     Inr ([TransferableInput (1, 2) 7 (TransferInput 20 [0])],
          [TransferableOutput 7 (TransferOutput 14 ex_owner)], [])"
proof -
  have "spend ex_rt
     (ex_builder
       [UTXO (1, 0) 8 (OtherOutput 5),
        UTXO (1, 1) 7 (StakeableLockOut 200 (OtherOutput 5)),
        UTXO (1, 2) 7 (TransferOutput 20 ex_owner)] [])
     [(7, 6)] [] ex_options =
     Inr ([TransferableInput (1, 2) 7 (TransferInput 20 [0])],
          [TransferableOutput 7 (TransferOutput 14 ex_owner)], [])"
    by code_simp
  then show ?thesis
    by (simp add: ex_local)
qed

text \<open>
  The amended claim at an unknown payload of the asset to burn, and at an active stake
  lock around an unknown payload of the asset to stake, each followed by a good UTXO.
\<close>

theorem unknown_output_type_reported_witness:
  "spend_locked {1} 100 (UTXO (1, 0) 7 (StakeableLockOut 200 (OtherOutput 5)))
     (spend_init [] [(7, 5)]) = Inl errUnknownOutputType \<and>
   spend_unlocked {1} 100 ex_owner (UTXO (1, 0) 7 (OtherOutput 5))
     (spend_init [(7, 6)] []) = Inl errUnknownOutputType \<and>
   for_each (spend_locked {1} 100)
     ([] @ UTXO (1, 0) 7 (StakeableLockOut 200 (OtherOutput 5)) #
        [UTXO (1, 1) 7 (TransferOutput 20 ex_owner)])
     (spend_init [] [(7, 5)]) = Inl errUnknownOutputType \<and>
   for_each (spend_unlocked {1} 100 ex_owner)
     ([] @ UTXO (1, 0) 7 (OtherOutput 5) # [UTXO (1, 1) 7 (TransferOutput 20 ex_owner)])
     (spend_init [(7, 6)] []) = Inl errUnknownOutputType \<and>
   spend_scan {1} 100 ex_owner
     ([] @ UTXO (1, 0) 7 (OtherOutput 5) # [UTXO (1, 1) 7 (TransferOutput 20 ex_owner)])
     (spend_init [(7, 6)] []) = Inl errUnknownOutputType \<and>
   spend ex_rt
     (ex_builder ([] @ UTXO (1, 0) 7 (OtherOutput 5) #
        [UTXO (1, 1) 7 (TransferOutput 20 ex_owner)]) [])
     [(7, 6)] [] ex_options = Inl errUnknownOutputType"
proof -
  let ?bad = "UTXO (1, 0) 7 (OtherOutput 5)"
  let ?badlock = "UTXO (1, 0) 7 (StakeableLockOut 200 (OtherOutput 5))"
  let ?good = "UTXO (1, 1) 7 (TransferOutput 20 ex_owner)"
  let ?sb = "spend_init [(7, 6)] []" and ?ss = "spend_init [] [(7, 5)]"
  note T = unknown_output_type_reported [where A = "{1}" and t = 100 and co = ex_owner
      and e = errUnknownOutputType]
  have a: "spend_locked {1} 100 ?badlock ?ss = Inl errUnknownOutputType"
    unfolding T [THEN conjunct1]
    by (simp add: spend_init_def amount_of_single)
  have b: "spend_unlocked {1} 100 ex_owner ?bad ?sb = Inl errUnknownOutputType"
    unfolding T [THEN conjunct2, THEN conjunct1]
    by (simp add: spend_init_def amount_of_single)
  have e1: "for_each (spend_locked {1} 100) [] ?ss = Inr ?ss"
    and e2: "for_each (spend_unlocked {1} 100 ex_owner) [] ?sb = Inr ?sb"
    by simp_all
  have c: "for_each (spend_locked {1} 100) ([] @ ?badlock # [?good]) ?ss =
           Inl errUnknownOutputType"
    by (rule T [THEN conjunct2, THEN conjunct2, THEN conjunct1, rule_format,
          OF conjI [OF e1 a]])
  have d: "for_each (spend_unlocked {1} 100 ex_owner) ([] @ ?bad # [?good]) ?sb =
           Inl errUnknownOutputType"
    by (rule T [THEN conjunct2, THEN conjunct2, THEN conjunct2, THEN conjunct1, rule_format,
          OF conjI [OF e2 b]])
  have p1: "for_each (spend_locked {1} 100) ([] @ ?bad # [?good]) ?sb = Inr ?sb"
    by (simp add: spend_locked_def spend_init_def amount_of_Nil)
  have sc: "spend_scan {1} 100 ex_owner ([] @ ?bad # [?good]) ?sb = Inl errUnknownOutputType"
    unfolding T [THEN conjunct2, THEN conjunct2, THEN conjunct2, THEN conjunct2, THEN conjunct1]
    using p1 d by blast
  have sp: "spend ex_rt (ex_builder ([] @ ?bad # [?good]) []) [(7, 6)] [] ex_options =
            Inl errUnknownOutputType"
  proof (rule T [where addr = 1 and utxos = "[] @ ?bad # [?good]",
          THEN conjunct2, THEN conjunct2, THEN conjunct2, THEN conjunct2, THEN conjunct2,
          rule_format])
    show "UTXOs (backend (ex_builder ([] @ ?bad # [?good]) [])) PlatformChainID =
            Inr ([] @ ?bad # [?good]) \<and>
          Peek ex_rt (addrs (ex_builder ([] @ ?bad # [?good]) [])) = Some 1 \<and>
          spend_scan (addrs (ex_builder ([] @ ?bad # [?good]) [])) (MinIssuanceTime ex_options)
            (resolve_changeOwner ex_options 1) ([] @ ?bad # [?good]) (spend_init [(7, 6)] []) =
            Inl errUnknownOutputType"
      using sc by (simp only: ex_local ex_Peek ex_options_sel ex_builder_sel simp_thms)
  qed
  show ?thesis
    using a b c d sc sp by blast
qed

section \<open>The check after the two passes\<close>

lemma spend_finish_stake_short:
  assumes "\<exists>a. amount_of (amountsToStake s) a \<noteq> 0"
  shows "\<exists>a. amount_of (amountsToStake s) a \<noteq> 0 \<and>
     spend_finish rt s =
       Inl (errInsufficientFunds (NeedToStake (amount_of (amountsToStake s) a) a))"
proof -
  from assms have "first_nonzero (stakeRange rt) (amountsToStake s) \<noteq> None"
    by (simp add: first_nonzero_None)
  then obtain a amt where f: "first_nonzero (stakeRange rt) (amountsToStake s) = Some (a, amt)"
    by auto
  from first_nonzero_Some [OF f] have "amt = amount_of (amountsToStake s) a" and "amt \<noteq> 0"
    by blast+
  then show ?thesis
    using f by (auto simp: spend_finish_def)
qed

lemma spend_finish_burn_short:
  assumes "\<forall>a. amount_of (amountsToStake s) a = 0"
    and "\<exists>a. amount_of (amountsToBurn s) a \<noteq> 0"
  shows "\<exists>a. amount_of (amountsToBurn s) a \<noteq> 0 \<and>
     spend_finish rt s =
       Inl (errInsufficientFunds (NeedToBurn (amount_of (amountsToBurn s) a) a))"
proof -
  from assms(1) have n: "first_nonzero (stakeRange rt) (amountsToStake s) = None"
    by (simp add: first_nonzero_None)
  from assms(2) have "first_nonzero (burnRange rt) (amountsToBurn s) \<noteq> None"
    by (simp add: first_nonzero_None)
  then obtain a amt where f: "first_nonzero (burnRange rt) (amountsToBurn s) = Some (a, amt)"
    by auto
  from first_nonzero_Some [OF f] have "amt = amount_of (amountsToBurn s) a" and "amt \<noteq> 0"
    by blast+
  then show ?thesis
    using f n by (auto simp: spend_finish_def)
qed

lemma spend_finish_met:
  assumes "\<forall>a. amount_of (amountsToStake s) a = 0 \<and> amount_of (amountsToBurn s) a = 0"
  shows "spend_finish rt s =
     Inr (SortTransferableInputs (inputs s),
          SortTransferableOutputs (changeOutputs s) (Codec rt),
          SortTransferableOutputs (stakeOutputs s) (Codec rt))"
proof -
  from assms have "first_nonzero (stakeRange rt) (amountsToStake s) = None"
    and "first_nonzero (burnRange rt) (amountsToBurn s) = None"
    by (simp_all add: first_nonzero_None)
  then show ?thesis
    by (simp add: spend_finish_def)
qed

lemma spend_after_scan:
  assumes "UTXOs (backend b) PlatformChainID = Inr utxos" and "Peek rt (addrs b) = Some addr"
    and "spend_scan (addrs b) (MinIssuanceTime ops) (resolve_changeOwner ops addr) utxos
           (spend_init toBurn toStake) = Inr s"
  shows "spend rt b toBurn toStake ops = spend_finish rt s"
  using assms by (simp add: spend_def Let_def)

lemma spend_Inr_zero:
  assumes "spend rt b toBurn toStake ops = Inr r"
  shows "\<exists>utxos addr s.
     UTXOs (backend b) PlatformChainID = Inr utxos \<and> Peek rt (addrs b) = Some addr \<and>
     spend_scan (addrs b) (MinIssuanceTime ops) (resolve_changeOwner ops addr) utxos
       (spend_init toBurn toStake) = Inr s \<and>
     (\<forall>a. amount_of (amountsToStake s) a = 0 \<and> amount_of (amountsToBurn s) a = 0)"
proof -
  from spend_Inr [OF assms] obtain utxos addr s where
    h: "UTXOs (backend b) PlatformChainID = Inr utxos" "Peek rt (addrs b) = Some addr"
       "spend_scan (addrs b) (MinIssuanceTime ops) (resolve_changeOwner ops addr) utxos
          (spend_init toBurn toStake) = Inr s"
       "spend_finish rt s = Inr r"
    by blast
  obtain ins chg stk where r: "r = (ins, chg, stk)"
    by (cases r) auto
  from spend_finish_Inr [OF h(4) [unfolded r]]
  have "\<forall>a. amount_of (amountsToStake s) a = 0 \<and> amount_of (amountsToBurn s) a = 0"
    by simp
  with h show ?thesis by blast
qed

text \<open>
  Claim C6. After both passes: when some asset still has an amount to stake, the check
  fails with the insufficient funds error for staking, naming such an asset and exactly
  the amount it still needs; when nothing is left to stake and some asset still has an
  amount to burn, it fails with the error for burning, naming such an asset and its
  exact remaining amount; when every entry of both maps is zero it returns the sorted
  lists. \<open>spend\<close> returns what this check returns, so that a failure carries no input
  and no output, and \<open>spend\<close> succeeds only when the scan has driven every entry
  of both maps to zero.
\<close>

theorem insufficient_funds_check:
  "((\<exists>a. amount_of (amountsToStake s) a \<noteq> 0) \<longrightarrow>
      (\<exists>a. amount_of (amountsToStake s) a \<noteq> 0 \<and>
         spend_finish rt s =
           Inl (errInsufficientFunds (NeedToStake (amount_of (amountsToStake s) a) a)))) \<and>
   ((\<forall>a. amount_of (amountsToStake s) a = 0) \<and> (\<exists>a. amount_of (amountsToBurn s) a \<noteq> 0) \<longrightarrow>
      (\<exists>a. amount_of (amountsToBurn s) a \<noteq> 0 \<and>
         spend_finish rt s =
           Inl (errInsufficientFunds (NeedToBurn (amount_of (amountsToBurn s) a) a)))) \<and>
   ((\<forall>a. amount_of (amountsToStake s) a = 0 \<and> amount_of (amountsToBurn s) a = 0) \<longrightarrow>
      spend_finish rt s =
        Inr (SortTransferableInputs (inputs s),
             SortTransferableOutputs (changeOutputs s) (Codec rt),
             SortTransferableOutputs (stakeOutputs s) (Codec rt))) \<and>
   (UTXOs (backend b) PlatformChainID = Inr utxos \<and> Peek rt (addrs b) = Some addr \<and>
    spend_scan (addrs b) (MinIssuanceTime ops) (resolve_changeOwner ops addr) utxos
      (spend_init toBurn toStake) = Inr s \<longrightarrow>
      spend rt b toBurn toStake ops = spend_finish rt s) \<and>
   (spend rt b toBurn toStake ops = Inr r \<longrightarrow>
      (\<exists>utxos addr s.
         UTXOs (backend b) PlatformChainID = Inr utxos \<and> Peek rt (addrs b) = Some addr \<and>
         spend_scan (addrs b) (MinIssuanceTime ops) (resolve_changeOwner ops addr) utxos
           (spend_init toBurn toStake) = Inr s \<and>
         (\<forall>a. amount_of (amountsToStake s) a = 0 \<and> amount_of (amountsToBurn s) a = 0)))"
  using spend_finish_stake_short [of s rt] spend_finish_burn_short [of s rt]
    spend_finish_met [of s rt] spend_after_scan [of b utxos rt addr ops toBurn toStake s]
    spend_Inr_zero [of rt b toBurn toStake ops r]
  by (intro conjI impI) blast+

lemma ex_scan_stake_short:
  "spend_scan {1} 100 ex_owner [UTXO (1, 0) 7 (TransferOutput 20 ex_owner)]
     (spend_init [] [(7, 25)]) =
     Inr \<lparr>inputs = [TransferableInput (1, 0) 7 (TransferInput 20 [0])],
          changeOutputs = [],
          stakeOutputs = [TransferableOutput 7 (TransferOutput 20 ex_owner)],
          amountsToBurn = [(7, 0)], amountsToStake = [(7, 5)]\<rparr>"
  by code_simp

lemma ex_scan_burn_short:
  "spend_scan {1} 100 ex_owner [UTXO (1, 0) 7 (TransferOutput 20 ex_owner)]
     (spend_init [(7, 26)] []) =
     Inr \<lparr>inputs = [TransferableInput (1, 0) 7 (TransferInput 20 [0])],
          changeOutputs = [], stakeOutputs = [],
          amountsToBurn = [(7, 6)], amountsToStake = [(7, 0)]\<rparr>"
  by code_simp

lemma ex_wallet_local:
  "UTXOs (backend ex_wallet) PlatformChainID = Inr [UTXO (1, 0) 7 (TransferOutput 20 ex_owner)]"
  "Peek ex_rt (addrs ex_wallet) = Some 1"
  by (simp_all add: ex_wallet_def ex_local ex_Peek)

text \<open>
  The theorem at the small wallet, which holds 20 units: asked to stake 25 it misses 5,
  asked to burn 26 it misses 6, asked to burn 6 it succeeds.
\<close>

theorem insufficient_funds_check_witness:
  "spend ex_rt ex_wallet [] [(7, 25)] ex_options =
     Inl (errInsufficientFunds (NeedToStake 5 7)) \<and>
   spend ex_rt ex_wallet [(7, 26)] [] ex_options =
     Inl (errInsufficientFunds (NeedToBurn 6 7)) \<and>
   spend ex_rt ex_wallet [(7, 6)] [] ex_options =
     Inr ([TransferableInput (1, 0) 7 (TransferInput 20 [0])],
          [TransferableOutput 7 (TransferOutput 14 ex_owner)], []) \<and>
   (\<exists>utxos addr s.
      UTXOs (backend ex_wallet) PlatformChainID = Inr utxos \<and>
      Peek ex_rt (addrs ex_wallet) = Some addr \<and>
      spend_scan (addrs ex_wallet) (MinIssuanceTime ex_options)
        (resolve_changeOwner ex_options addr) utxos (spend_init [(7, 6)] []) = Inr s \<and>
      (\<forall>a. amount_of (amountsToStake s) a = 0 \<and> amount_of (amountsToBurn s) a = 0))"
proof -
  let ?S1 = "\<lparr>inputs = [TransferableInput (1, 0) 7 (TransferInput 20 [0])],
          changeOutputs = [],
          stakeOutputs = [TransferableOutput 7 (TransferOutput 20 ex_owner)],
          amountsToBurn = [(7, 0 :: u64)], amountsToStake = [(7, 5 :: u64)]\<rparr>"
  let ?S2 = "\<lparr>inputs = [TransferableInput (1, 0) 7 (TransferInput 20 [0])],
          changeOutputs = [], stakeOutputs = [],
          amountsToBurn = [(7, 6 :: u64)], amountsToStake = [(7, 0 :: u64)]\<rparr>"
  note T = insufficient_funds_check [where rt = ex_rt and b = ex_wallet and ops = ex_options]
  have h1: "UTXOs (backend ex_wallet) PlatformChainID =
              Inr [UTXO (1, 0) 7 (TransferOutput 20 ex_owner)] \<and>
            Peek ex_rt (addrs ex_wallet) = Some 1 \<and>
            spend_scan (addrs ex_wallet) (MinIssuanceTime ex_options)
              (resolve_changeOwner ex_options 1)
              [UTXO (1, 0) 7 (TransferOutput 20 ex_owner)] (spend_init [] [(7, 25)]) = Inr ?S1"
    using ex_scan_stake_short
    by (simp only: ex_wallet_local ex_wallet_sel ex_options_sel ex_Peek simp_thms)
  have h2: "UTXOs (backend ex_wallet) PlatformChainID =
              Inr [UTXO (1, 0) 7 (TransferOutput 20 ex_owner)] \<and>
            Peek ex_rt (addrs ex_wallet) = Some 1 \<and>
            spend_scan (addrs ex_wallet) (MinIssuanceTime ex_options)
              (resolve_changeOwner ex_options 1)
              [UTXO (1, 0) 7 (TransferOutput 20 ex_owner)] (spend_init [(7, 26)] []) = Inr ?S2"
    using ex_scan_burn_short
    by (simp only: ex_wallet_local ex_wallet_sel ex_options_sel ex_Peek simp_thms)
  have f1: "spend ex_rt ex_wallet [] [(7, 25)] ex_options = spend_finish ex_rt ?S1"
    by (rule T [THEN conjunct2, THEN conjunct2, THEN conjunct2, THEN conjunct1, rule_format,
          OF h1])
  have f2: "spend ex_rt ex_wallet [(7, 26)] [] ex_options = spend_finish ex_rt ?S2"
    by (rule T [THEN conjunct2, THEN conjunct2, THEN conjunct2, THEN conjunct1, rule_format,
          OF h2])
  have n1: "\<exists>a. amount_of (amountsToStake ?S1) a \<noteq> 0"
    by (rule exI [of _ 7]) (simp add: amount_of_single)
  have n2: "(\<forall>a. amount_of (amountsToStake ?S2) a = 0) \<and>
            (\<exists>a. amount_of (amountsToBurn ?S2) a \<noteq> 0)"
    by (rule conjI, simp add: amount_of_single, rule exI [of _ 7], simp add: amount_of_single)
  from T [where s = ?S1, THEN conjunct1, THEN mp, OF n1]
  have a: "spend ex_rt ex_wallet [] [(7, 25)] ex_options =
     Inl (errInsufficientFunds (NeedToStake 5 7))"
    unfolding f1 by (auto simp: amount_of_single split: if_splits)
  from T [where s = ?S2, THEN conjunct2, THEN conjunct1, THEN mp, OF n2]
  have b: "spend ex_rt ex_wallet [(7, 26)] [] ex_options =
     Inl (errInsufficientFunds (NeedToBurn 6 7))"
    unfolding f2 by (auto simp: amount_of_single split: if_splits)
  note c = T [where toBurn = "[(7, 6)]" and toStake = "[]",
      THEN conjunct2, THEN conjunct2, THEN conjunct2, THEN conjunct2, rule_format, OF ex_spend]
  show ?thesis
    using a b ex_spend c by blast
qed

section \<open>The import\<close>

text \<open>
  Claim C7. Let the source chain answer with its UTXOs, and let \<open>isum\<close> be the sum of the
  amounts of the eligible ones (native asset, plain transfer output, owners matched).
  With no eligible UTXO \<open>NewImportTx\<close> fails with the insufficient funds error. Otherwise,
  when the sum fits in 64 bits it is the imported amount, and: below the fee, the result
  is that of the local \<open>spend\<close> asked to burn exactly the fee minus the imported amount
  and to stake nothing; above the fee, with a change owner resolved from the picked
  address, there is no local input and exactly one plain change output, of the imported
  amount minus the fee, owned by the change owner; equal to the fee, there is no local
  input and no output.
\<close>

theorem import_fee_branches:
  fixes b :: builder and ops :: Options and utxos :: "UTXO list"
  defines "d \<equiv> DJTXAssetID (backend b)"
    and "fee \<equiv> BaseTxFee (backend b)"
    and "t \<equiv> MinIssuanceTime ops"
  defines "elig \<equiv> filter (eligible (addrs b) d t) utxos"
    and "isum \<equiv> eligible_sum (addrs b) d t utxos"
  defines "importedAmount \<equiv> (of_nat isum :: u64)"
    and "importedInputs \<equiv> SortTransferableInputs (map (imported_input (addrs b) t) elig)"
  assumes utxos: "UTXOs (backend b) src = Inr utxos"
  shows "(elig = [] \<longrightarrow>
            NewImportTx rt b src to ops = Inl (errInsufficientFunds NoUTXOsToImport)) \<and>
         (isum < 2 ^ 64 \<longrightarrow> unat importedAmount = isum) \<and>
         (elig \<noteq> [] \<and> isum < 2 ^ 64 \<and> importedAmount < fee \<longrightarrow>
            NewImportTx rt b src to ops =
              (case spend rt b [(d, fee - importedAmount)] [] ops of
                 Inl e \<Rightarrow> Inl (errGenerate e)
               | Inr (ins, outs, stk) \<Rightarrow>
                   Inr (UnsignedImportTx (base_tx b ops ins outs) src importedInputs)) \<and>
            unat (fee - importedAmount) = unat fee - isum) \<and>
         (elig \<noteq> [] \<and> isum < 2 ^ 64 \<and> importedAmount > fee \<and>
          Peek rt (addrs b) = Some addr \<longrightarrow>
            NewImportTx rt b src to ops =
              Inr (UnsignedImportTx
                     (base_tx b ops []
                        [TransferableOutput d
                           (TransferOutput (importedAmount - fee) (resolve_changeOwner ops addr))])
                     src importedInputs) \<and>
            unat (importedAmount - fee) = isum - unat fee) \<and>
         (elig \<noteq> [] \<and> isum < 2 ^ 64 \<and> importedAmount = fee \<longrightarrow>
            NewImportTx rt b src to ops =
              Inr (UnsignedImportTx (base_tx b ops [] []) src importedInputs))"
proof -
  note ev = NewImportTx_eval [OF utxos, of rt to ops, unfolded Let_def,
      folded d_def fee_def t_def, folded elig_def isum_def, folded importedAmount_def importedInputs_def]
  have z: "elig = [] \<Longrightarrow> isum = 0"
    by (simp add: elig_def isum_def eligible_sum_def)
  have one: "elig = [] \<longrightarrow>
            NewImportTx rt b src to ops = Inl (errInsufficientFunds NoUTXOsToImport)"
    using z by (simp add: ev)
  have two: "isum < 2 ^ 64 \<longrightarrow> unat importedAmount = isum"
    by (simp add: importedAmount_def unat_of_nat64)
  have three: "elig \<noteq> [] \<and> isum < 2 ^ 64 \<and> importedAmount < fee \<longrightarrow>
            NewImportTx rt b src to ops =
              (case spend rt b [(d, fee - importedAmount)] [] ops of
                 Inl e \<Rightarrow> Inl (errGenerate e)
               | Inr (ins, outs, stk) \<Rightarrow>
                   Inr (UnsignedImportTx (base_tx b ops ins outs) src importedInputs)) \<and>
            unat (fee - importedAmount) = unat fee - isum"
    using two by (auto simp: ev unat_sub)
  have four: "elig \<noteq> [] \<and> isum < 2 ^ 64 \<and> importedAmount > fee \<and>
          Peek rt (addrs b) = Some addr \<longrightarrow>
            NewImportTx rt b src to ops =
              Inr (UnsignedImportTx
                     (base_tx b ops []
                        [TransferableOutput d
                           (TransferOutput (importedAmount - fee) (resolve_changeOwner ops addr))])
                     src importedInputs) \<and>
            unat (importedAmount - fee) = isum - unat fee"
    using two by (auto simp: ev unat_sub)
  have five: "elig \<noteq> [] \<and> isum < 2 ^ 64 \<and> importedAmount = fee \<longrightarrow>
            NewImportTx rt b src to ops =
              Inr (UnsignedImportTx (base_tx b ops [] []) src importedInputs)"
    by (simp add: ev)
  show ?thesis
    using one two three four five by blast
qed

lemma ex_foreign_none: "UTXOs (backend (ex_builder l [])) 9 = Inr []"
  by (simp add: ex_builder_def ex_backend_def PlatformChainID_def)

lemma ex_foreign_one:
  "UTXOs (backend (ex_builder l [x])) 9 = Inr [UTXO (2, 0) 7 (TransferOutput x ex_owner)]"
  by (simp add: ex_builder_def ex_backend_def PlatformChainID_def)

lemma ex_eligible_one: "eligible {1} 7 100 (UTXO (2, 0) 7 (TransferOutput x ex_owner))"
  by (simp add: eligible_def ex_match del: One_nat_def)

lemma ex_imported_one:
  "imported_input {1} 100 (UTXO (2, 0) 7 (TransferOutput x ex_owner)) =
     TransferableInput (2, 0) 7 (TransferInput x [0])"
  by (simp add: imported_input_def ex_match del: One_nat_def)

lemma ex_eligible_sum_one:
  "eligible_sum {1} 7 100 [UTXO (2, 0) 7 (TransferOutput x ex_owner)] = unat x"
  by (simp add: eligible_sum_def ex_eligible_one del: One_nat_def)

lemma Sort_inputs_single: "SortTransferableInputs [i] = [i]"
  by (simp add: SortTransferableInputs_def)

lemma ex_base_tx:
  "base_tx (ex_builder l f) ex_options ins outs =
     \<lparr>NetworkID = 5, BlockchainID = 0, Ins = ins, Outs = outs, Memo = []\<rparr>"
  by (simp add: base_tx_def ex_builder_def ex_backend_def ex_options_def PlatformChainID_def)

text \<open>
  The theorem at a source chain with no UTXO, and with one UTXO of 4, of 14 and of 10
  units against the fee of 10.
\<close>

theorem import_fee_branches_witness:
  "NewImportTx ex_rt (ex_builder [] []) 9 ex_owner ex_options =
     Inl (errInsufficientFunds NoUTXOsToImport) \<and>
   NewImportTx ex_rt ex_wallet 9 ex_owner ex_options =
     (case spend ex_rt ex_wallet [(7, 6)] [] ex_options of
        Inl e \<Rightarrow> Inl (errGenerate e)
      | Inr (ins, outs, stk) \<Rightarrow>
          Inr (UnsignedImportTx
                 \<lparr>NetworkID = 5, BlockchainID = 0, Ins = ins, Outs = outs, Memo = []\<rparr>
                 9 [TransferableInput (2, 0) 7 (TransferInput 4 [0])])) \<and>
   NewImportTx ex_rt (ex_builder [] [14]) 9 ex_owner ex_options =
     Inr (UnsignedImportTx
            \<lparr>NetworkID = 5, BlockchainID = 0, Ins = [],
               Outs = [TransferableOutput 7 (TransferOutput 4 ex_owner)], Memo = []\<rparr>
            9 [TransferableInput (2, 0) 7 (TransferInput 14 [0])]) \<and>
   NewImportTx ex_rt (ex_builder [] [10]) 9 ex_owner ex_options =
     Inr (UnsignedImportTx
            \<lparr>NetworkID = 5, BlockchainID = 0, Ins = [], Outs = [], Memo = []\<rparr>
            9 [TransferableInput (2, 0) 7 (TransferInput 10 [0])])"
proof -
  note T = import_fee_branches [where rt = ex_rt and src = 9 and to = ex_owner
      and ops = ex_options]
  note sel = ex_builder_sel ex_options_sel ex_eligible_one ex_eligible_sum_one ex_imported_one
    Sort_inputs_single ex_base_tx ex_Peek
  have a: "NewImportTx ex_rt (ex_builder [] []) 9 ex_owner ex_options =
     Inl (errInsufficientFunds NoUTXOsToImport)"
    using T [OF ex_foreign_none [of "[]"], THEN conjunct1] by simp
  have b: "NewImportTx ex_rt ex_wallet 9 ex_owner ex_options =
     (case spend ex_rt ex_wallet [(7, 6)] [] ex_options of
        Inl e \<Rightarrow> Inl (errGenerate e)
      | Inr (ins, outs, stk) \<Rightarrow>
          Inr (UnsignedImportTx
                 \<lparr>NetworkID = 5, BlockchainID = 0, Ins = ins, Outs = outs, Memo = []\<rparr>
                 9 [TransferableInput (2, 0) 7 (TransferInput 4 [0])]))"
    using T [OF ex_foreign_one [of "[UTXO (1, 0) 7 (TransferOutput 20 ex_owner)]" 4],
        THEN conjunct2, THEN conjunct2, THEN conjunct1]
    by (simp add: sel ex_wallet_def del: One_nat_def cong: sum.case_cong prod.case_cong)
  have c: "NewImportTx ex_rt (ex_builder [] [14]) 9 ex_owner ex_options =
     Inr (UnsignedImportTx
            \<lparr>NetworkID = 5, BlockchainID = 0, Ins = [],
               Outs = [TransferableOutput 7 (TransferOutput 4 ex_owner)], Memo = []\<rparr>
            9 [TransferableInput (2, 0) 7 (TransferInput 14 [0])])"
    using T [OF ex_foreign_one [of "[]" 14], where addr = 1,
        THEN conjunct2, THEN conjunct2, THEN conjunct2, THEN conjunct1]
    by (simp add: sel del: One_nat_def)
  have d: "NewImportTx ex_rt (ex_builder [] [10]) 9 ex_owner ex_options =
     Inr (UnsignedImportTx
            \<lparr>NetworkID = 5, BlockchainID = 0, Ins = [], Outs = [], Memo = []\<rparr>
            9 [TransferableInput (2, 0) 7 (TransferInput 10 [0])])"
    using T [OF ex_foreign_one [of "[]" 10],
        THEN conjunct2, THEN conjunct2, THEN conjunct2, THEN conjunct2]
    by (simp add: sel del: One_nat_def)
  show ?thesis
    using a b c d by blast
qed

text \<open>
  Claim C8, as amended. In the import-shortfall scenario \<open>NewImportTx\<close> returns a
  transaction with one imported input of 4 units, one local input that consumes the
  10-unit UTXO, of which 6 are burned, and one plain change output of the remaining 4
  units owned by the wallet's address.
\<close>

theorem import_shortfall_scenario:
  "NewImportTx ex_rt scenario_wallet 9 ex_owner ex_options =
     Inr (UnsignedImportTx
            \<lparr>NetworkID = 5, BlockchainID = 0,
               Ins = [TransferableInput (1, 0) 7 (TransferInput 10 [0])],
               Outs = [TransferableOutput 7 (TransferOutput 4 ex_owner)],
               Memo = []\<rparr>
            9 [TransferableInput (2, 0) 7 (TransferInput 4 [0])])"
  by code_simp

text \<open>
  Claim C8 as stated fails: the transaction of the scenario has a change output.
\<close>

theorem import_shortfall_change_counterexample:
  "map_sum id tx_outputs (NewImportTx ex_rt scenario_wallet 9 ex_owner ex_options) =
     Inr [TransferableOutput 7 (TransferOutput 4 ex_owner)]"
  by code_simp

end
